theory Spec2Isabelle
  imports Complex_Main
begin

section \<open>Errors and tensors\<close>

text \<open>
  The exceptions the Python sources can raise: \<open>ValueError\<close> is raised by
  \<open>SliceUpdateKeyValueCache.update\<close> itself (and by \<open>np.argmax\<close> on an empty vector),
  \<open>IndexError\<close> by an integer index out of range, \<open>RuntimeError\<close> by torch when a
  tensor cannot be allocated, a slice assignment does not fit or the attention function
  refuses its arguments, \<open>TypeError\<close> by torch when a dimension is not a 64-bit integer.
\<close>

datatype error = ValueError | IndexError | RuntimeError | TypeError

text \<open>
  A tensor carries its shape, as a torch tensor does, next to its entries as nested lists
  (outermost axis first). The key and value chunks are four-dimensional
  \<open>(batch, heads, positions, features)\<close>, the cache buffers five-dimensional
  \<open>(layers, batch, heads, positions, features)\<close>.
\<close>

record 'a tensor4 =
  shape4 :: "nat \<times> nat \<times> nat \<times> nat"
  data4 :: "'a list list list list"

record 'a tensor5 =
  shape5 :: "nat \<times> nat \<times> nat \<times> nat \<times> nat"
  data5 :: "'a list list list list list"

definition rows_ok :: "nat \<Rightarrow> nat \<Rightarrow> 'a list list \<Rightarrow> bool" where
  "rows_ok c d ps \<longleftrightarrow> length ps = c \<and> (\<forall>r \<in> set ps. length r = d)"

definition heads_ok :: "nat \<Rightarrow> nat \<Rightarrow> nat \<Rightarrow> 'a list list list \<Rightarrow> bool" where
  "heads_ok h c d hs \<longleftrightarrow> length hs = h \<and> (\<forall>ps \<in> set hs. rows_ok c d ps)"

definition batch_ok :: "nat \<Rightarrow> nat \<Rightarrow> nat \<Rightarrow> nat \<Rightarrow> 'a list list list list \<Rightarrow> bool" where
  "batch_ok b h c d bs \<longleftrightarrow> length bs = b \<and> (\<forall>hs \<in> set bs. heads_ok h c d hs)"

text \<open>Well-formed tensors: the nested lists have the sizes the shape announces.\<close>

definition wf4 :: "'a tensor4 \<Rightarrow> bool" where
  "wf4 t \<longleftrightarrow> (case shape4 t of (b, h, c, d) \<Rightarrow> batch_ok b h c d (data4 t))"

definition wf5 :: "'a tensor5 \<Rightarrow> bool" where
  "wf5 t \<longleftrightarrow> (case shape5 t of (nl, b, h, c, d) \<Rightarrow>
     length (data5 t) = nl \<and> (\<forall>bs \<in> set (data5 t). batch_ok b h c d bs))"

text \<open>
  \<open>torch.zeros(shape)\<close> for the five-element shape tuple of the cache. A dimension must
  fit a signed 64-bit integer, or reading the argument fails with a \<open>TypeError\<close>; torch
  then refuses a negative dimension with a \<open>RuntimeError\<close>; a dimension of size zero is
  accepted and gives a tensor without entries. The allocation itself fails with a
  \<open>RuntimeError\<close> when the number of entries does not fit 64 bits or exceeds what the
  allocator can provide, which is the parameter \<open>mem\<close>, counted in entries.
\<close>

definition int64_ok :: "int \<Rightarrow> bool" where
  "int64_ok i \<longleftrightarrow> - (2 ^ 63) \<le> i \<and> i < 2 ^ 63"

definition torch_zeros ::
  "nat \<Rightarrow> int \<times> int \<times> int \<times> int \<times> int \<Rightarrow> error + ('a::zero) tensor5" where
  "torch_zeros mem shape = (case shape of (nl, b, h, c, d) \<Rightarrow>
     if \<not> (int64_ok nl \<and> int64_ok b \<and> int64_ok h \<and> int64_ok c \<and> int64_ok d) then Inl TypeError
     else if nl < 0 \<or> b < 0 \<or> h < 0 \<or> c < 0 \<or> d < 0 then Inl RuntimeError
     else if 2 ^ 63 \<le> nl * b * h * c * d \<or> int mem < nl * b * h * c * d then Inl RuntimeError
     else Inr \<lparr>shape5 = (nat nl, nat b, nat h, nat c, nat d),
               data5 = replicate (nat nl) (replicate (nat b) (replicate (nat h)
                         (replicate (nat c) (replicate (nat d) 0))))\<rparr>)"

text \<open>The number of entries of a five-dimensional tensor.\<close>

definition numel5 :: "'a tensor5 \<Rightarrow> nat" where
  "numel5 t = (case shape5 t of (nl, b, h, c, d) \<Rightarrow> nl * b * h * c * d)"

text \<open>
  An integer index \<open>t[i]\<close> into an axis of size \<open>n\<close>: negative indices count from the
  end, anything outside \<open>[-n, n)\<close> is an \<open>IndexError\<close> (\<open>None\<close> here).
\<close>

definition index_axis :: "nat \<Rightarrow> int \<Rightarrow> nat option" where
  "index_axis n i =
     (if 0 \<le> i \<and> i < int n then Some (nat i)
      else if - int n \<le> i \<and> i < 0 then Some (nat (i + int n))
      else None)"

text \<open>
  One bound of a slice \<open>t[begin:end]\<close> over an axis of size \<open>n\<close>: a negative bound counts
  from the end, and the result is clamped into \<open>[0, n]\<close>; a slice never raises.
\<close>

definition slice_bound :: "nat \<Rightarrow> int \<Rightarrow> nat" where
  "slice_bound n i = (if i < 0 then nat (max (i + int n) 0) else min (nat i) n)"

text \<open>
  Assigning a tensor to a slice copies it into the selected view after broadcasting: an
  axis of the source fits the view when it has the view's size or size one (then its only
  entry is repeated, possibly zero times). Anything else is a shape mismatch.
\<close>

definition expandable :: "nat \<Rightarrow> nat \<Rightarrow> bool" where
  "expandable s v \<longleftrightarrow> s = v \<or> s = 1"

definition expand :: "nat \<Rightarrow> 'x list \<Rightarrow> 'x list" where
  "expand n xs = (if length xs = n then xs else replicate n (hd xs))"

definition write_positions :: "nat \<Rightarrow> nat \<Rightarrow> nat \<Rightarrow> 'a list list \<Rightarrow> 'a list list \<Rightarrow> 'a list list" where
  "write_positions start len d dst src =
     take start dst @ map (expand d) (expand len src) @ drop (start + len) dst"

definition write_heads ::
  "nat \<Rightarrow> nat \<Rightarrow> nat \<Rightarrow> nat \<Rightarrow> 'a list list list \<Rightarrow> 'a list list list \<Rightarrow> 'a list list list" where
  "write_heads hv start len d dst src =
     map2 (write_positions start len d) (take hv dst) (expand hv src) @ drop hv dst"

definition write_batch ::
  "nat \<Rightarrow> nat \<Rightarrow> nat \<Rightarrow> nat \<Rightarrow> nat \<Rightarrow> 'a list list list list \<Rightarrow> 'a list list list list
     \<Rightarrow> 'a list list list list" where
  "write_batch b hv start len d dst src =
     map2 (write_heads hv start len d) dst (expand b src)"

text \<open>
  \<open>cache[layer_idx, :, :src.shape[1], begin:end, :] = src\<close> (export.py, lines 55 and 56).
  The view is taken first (an \<open>IndexError\<close> for a bad layer index, clamped slices
  otherwise), then the source is broadcast to the view's shape and copied; the shapes are
  compared before anything is written.
\<close>

definition setitem :: "'a tensor5 \<Rightarrow> int \<Rightarrow> int \<Rightarrow> int \<Rightarrow> 'a tensor4 \<Rightarrow> error + 'a tensor5" where
  "setitem t layer_idx begin_idx end_idx src =
     (case shape5 t of (nl, b, h, c, d) \<Rightarrow>
      case shape4 src of (bs, hs, qs, ds) \<Rightarrow>
      (case index_axis nl layer_idx of
         None \<Rightarrow> Inl IndexError
       | Some l \<Rightarrow>
           let hv = min hs h;
               start = slice_bound c begin_idx;
               stop = slice_bound c end_idx;
               len = stop - start
           in if expandable bs b \<and> expandable hs hv \<and> expandable qs len \<and> expandable ds d
              then Inr (t\<lparr>data5 := (data5 t)[l := write_batch b hv start len d (data5 t ! l) (data4 src)]\<rparr>)
              else Inl RuntimeError))"

text \<open>\<open>cache[layer_idx, :, :, :end, :]\<close> (export.py, lines 57 and 58).\<close>

definition getitem :: "'a tensor5 \<Rightarrow> int \<Rightarrow> int \<Rightarrow> error + 'a tensor4" where
  "getitem t layer_idx end_idx =
     (case shape5 t of (nl, b, h, c, d) \<Rightarrow>
      (case index_axis nl layer_idx of
         None \<Rightarrow> Inl IndexError
       | Some l \<Rightarrow>
           Inr \<lparr>shape4 = (b, h, slice_bound c end_idx, d),
                data4 = map (map (take (slice_bound c end_idx))) (data5 t ! l)\<rparr>))"

section \<open>The key/value cache (export.py, SliceUpdateKeyValueCache)\<close>

record 'a cache =
  past_seen_tokens :: int
  k_cache :: "'a tensor5"
  v_cache :: "'a tensor5"

text \<open>
  \<open>__init__\<close> (lines 29 to 39) for the shape
  \<open>(#layers, batch_size, #kv_heads, context_size, head_dim)\<close> of its docstring. It checks
  nothing itself; the only failures are those of \<open>torch.zeros\<close>. The value buffer is
  allocated from what the key buffer has left of \<open>mem\<close>.
\<close>

definition cache_init ::
  "nat \<Rightarrow> int \<times> int \<times> int \<times> int \<times> int \<Rightarrow> error + ('a::zero) cache" where
  "cache_init mem shape =
     (case torch_zeros mem shape of
        Inl e \<Rightarrow> Inl e
      | Inr k \<Rightarrow>
          (case torch_zeros (mem - numel5 k) shape of
             Inl e \<Rightarrow> Inl e
           | Inr v \<Rightarrow> Inr \<lparr>past_seen_tokens = 0, k_cache = k, v_cache = v\<rparr>))"

text \<open>
  \<open>update\<close> (lines 41 to 59). The cache is mutable, so the result is paired with the
  cache as the call leaves it, also when it raises: a failure of the second assignment
  leaves the first one in place.
\<close>

definition update ::
  "'a cache \<Rightarrow> 'a tensor4 \<Rightarrow> 'a tensor4 \<Rightarrow> int \<Rightarrow> int list
     \<Rightarrow> (error + 'a tensor4 \<times> 'a tensor4) \<times> 'a cache" where
  "update self k_state v_state layer_idx slice_indices =
     (if length slice_indices \<noteq> 2 then (Inl ValueError, self)
      else
        let begin_idx = slice_indices ! 0; end_idx = slice_indices ! 1 in
        case setitem (k_cache self) layer_idx begin_idx end_idx k_state of
          Inl e \<Rightarrow> (Inl e, self)
        | Inr kc \<Rightarrow>
            let self1 = self\<lparr>k_cache := kc\<rparr> in
            (case setitem (v_cache self1) layer_idx begin_idx end_idx v_state of
               Inl e \<Rightarrow> (Inl e, self1)
             | Inr vc \<Rightarrow>
                 let self2 = self1\<lparr>v_cache := vc\<rparr> in
                 (case getitem (k_cache self2) layer_idx end_idx of
                    Inl e \<Rightarrow> (Inl e, self2)
                  | Inr k \<Rightarrow>
                      (case getitem (v_cache self2) layer_idx end_idx of
                         Inl e \<Rightarrow> (Inl e, self2)
                       | Inr v \<Rightarrow> (Inr (k, v), self2)))))"

definition get_seq_length :: "'a cache \<Rightarrow> int" where
  "get_seq_length self = past_seen_tokens self"

section \<open>The attention step (export.py, SliceUpdateMistralAttention)\<close>

text \<open>
  Entries of an attention mask: additive \<open>0\<close> or minus infinity. Both are exact in
  float16, so the conversion \<open>astype(np.float16)\<close> of generate.py keeps them as they are.
\<close>

datatype fp = NegInf | Fin real

text \<open>
  The attention module. Its projections, the rotary embedding, the reshaping into heads
  and the library functions \<open>repeat_kv\<close> and \<open>scaled_dot_product_attention\<close> are outside
  this repository, so the module carries them as fields: \<open>query_states_of\<close> and
  \<open>key_states_of\<close> stand for projection, \<open>view\<close>, \<open>transpose\<close> and rotary embedding
  (lines 81 to 94), \<open>value_states_of\<close> for projection, \<open>view\<close> and \<open>transpose\<close>, and
  \<open>o_proj\<close> for lines 115 to 117. The attention function can refuse its arguments, as
  it does for a mask whose width is not the number of key positions, so it returns an
  error or its output. Hidden states are \<open>(batch, positions)\<close> lists of hidden vectors.
\<close>

record ('h, 'q, 'a, 's) attention =
  layer_idx :: int
  num_key_value_groups :: nat
  query_states_of :: "'h list list \<Rightarrow> int list \<Rightarrow> 'q"
  key_states_of :: "'h list list \<Rightarrow> int list \<Rightarrow> 'a tensor4"
  value_states_of :: "'h list list \<Rightarrow> 'a tensor4"
  repeat_kv :: "'a tensor4 \<Rightarrow> nat \<Rightarrow> 'a tensor4"
  scaled_dot_product_attention :: "'q \<Rightarrow> 'a tensor4 \<Rightarrow> 'a tensor4 \<Rightarrow> fp tensor4 \<Rightarrow> error + 's"
  o_proj :: "'s \<Rightarrow> 'h list list"

text \<open>\<open>q_len\<close> of \<open>bsz, q_len, _ = hidden_states.size()\<close>, for a batch that is not empty.\<close>

definition q_len_of :: "'h list list \<Rightarrow> nat" where
  "q_len_of hidden_states = (case hidden_states of [] \<Rightarrow> 0 | r # _ \<Rightarrow> length r)"

text \<open>\<open>attention_mask.shape[-1]\<close>.\<close>

definition last_dim :: "'v tensor4 \<Rightarrow> nat" where
  "last_dim t = (case shape4 t of (a, b, c, d) \<Rightarrow> d)"

text \<open>\<open>forward\<close> (lines 70 to 118); of the triple it returns only the first part is kept.\<close>

definition attention_forward ::
  "('h, 'q, 'a, 's) attention \<Rightarrow> 'h list list \<Rightarrow> fp tensor4 \<Rightarrow> int list \<Rightarrow> 'a cache
     \<Rightarrow> (error + 'h list list) \<times> 'a cache" where
  "attention_forward self hidden_states attention_mask position_ids past_key_value =
     (let q_len = q_len_of hidden_states;
          query_states = query_states_of self hidden_states position_ids;
          key_states = key_states_of self hidden_states position_ids;
          value_states = value_states_of self hidden_states;
          end_step = last_dim attention_mask
      in case update past_key_value key_states value_states (layer_idx self)
                [int end_step - int q_len, int end_step] of
           (Inl e, kv) \<Rightarrow> (Inl e, kv)
         | (Inr (k, v), kv) \<Rightarrow>
             (case scaled_dot_product_attention self query_states
                     (repeat_kv self k (num_key_value_groups self))
                     (repeat_kv self v (num_key_value_groups self))
                     attention_mask of
                Inl e \<Rightarrow> (Inl e, kv)
              | Inr attn_output \<Rightarrow> (Inr (o_proj self attn_output), kv)))"

section \<open>The stateful model (export.py, StatefulMistralForCausalLM)\<close>

text \<open>
  Modelled from the spec: the decoder \<open>MistralForCausalLM\<close> belongs to the transformers
  library and is not in this repository. The specification (4.3) says how it uses the
  cache: the attention step is invoked once for each layer, with the chunk of hidden
  states for the new positions, the shared cache and the mask of the step. This skeleton
  keeps exactly that; the embedding, what a layer does around its attention (\<open>mlp\<close>) and
  the output head are fields. The position indices start at the cache's sequence length.
\<close>

record ('h, 'q, 'a, 's) decoder_layer =
  self_attn :: "('h, 'q, 'a, 's) attention"
  mlp :: "'h list list \<Rightarrow> 'h list list \<Rightarrow> 'h list list"

record ('h, 'q, 'a, 's, 'l) causal_lm =
  embed_tokens :: "int list \<Rightarrow> 'h list list"
  layers :: "('h, 'q, 'a, 's) decoder_layer list"
  lm_head :: "'h list list \<Rightarrow> 'l list list list"

fun decoder_layers ::
  "('h, 'q, 'a, 's) decoder_layer list \<Rightarrow> 'h list list \<Rightarrow> fp tensor4 \<Rightarrow> int list \<Rightarrow> 'a cache
     \<Rightarrow> (error + 'h list list) \<times> 'a cache" where
  "decoder_layers [] hidden_states attention_mask position_ids kv = (Inr hidden_states, kv)"
| "decoder_layers (layer # rest) hidden_states attention_mask position_ids kv =
     (case attention_forward (self_attn layer) hidden_states attention_mask position_ids kv of
        (Inl e, kv1) \<Rightarrow> (Inl e, kv1)
      | (Inr attn_output, kv1) \<Rightarrow>
          decoder_layers rest (mlp layer hidden_states attn_output) attention_mask position_ids kv1)"

definition causal_lm_call ::
  "('h, 'q, 'a, 's, 'l) causal_lm \<Rightarrow> int list \<Rightarrow> fp tensor4 \<Rightarrow> 'a cache
     \<Rightarrow> (error + 'l list list list) \<times> 'a cache" where
  "causal_lm_call m input_ids attention_mask past_key_values =
     (let hidden_states = embed_tokens m input_ids;
          position_ids = map (\<lambda>i. get_seq_length past_key_values + int i)
                           [0 ..< q_len_of hidden_states]
      in case decoder_layers (layers m) hidden_states attention_mask position_ids past_key_values of
           (Inl e, kv) \<Rightarrow> (Inl e, kv)
         | (Inr h, kv) \<Rightarrow> (Inr (lm_head m h), kv))"

text \<open>
  \<open>StatefulMistralForCausalLM.forward\<close> (lines 143 to 156): the counter of the cache is
  set to the number of tokens seen before this call, then the decoder runs. The input
  holds one sequence, given as its row of token ids, so \<open>input_ids.shape[-1]\<close> is its
  length.
\<close>

definition stateful_forward ::
  "('h, 'q, 'a, 's, 'l) causal_lm \<Rightarrow> 'a cache \<Rightarrow> int list \<Rightarrow> fp tensor4
     \<Rightarrow> (error + 'l list list list) \<times> 'a cache" where
  "stateful_forward m kv_cache input_ids causal_mask =
     causal_lm_call m input_ids causal_mask
       (kv_cache\<lparr>past_seen_tokens := int (last_dim causal_mask) - int (length input_ids)\<rparr>)"

section \<open>The decoding driver (generate.py)\<close>

text \<open>
  A score of the logits array: a floating-point number or NaN. The numbers are taken
  from a linear order, which has room for the infinities.
\<close>

datatype 'l score = NaN | Num 'l

text \<open>
  \<open>np.argmax\<close> on a vector of floating-point numbers: a scan that keeps the first largest
  entry (a later entry replaces the best one only when it is not less than or equal to
  it) and stops at the first NaN, whose index it returns; an empty vector is a
  \<open>ValueError\<close>.
\<close>

fun argmax_scan :: "('l::linorder) score list \<Rightarrow> nat \<Rightarrow> 'l \<Rightarrow> nat \<Rightarrow> nat" where
  "argmax_scan [] i mv mi = mi"
| "argmax_scan (NaN # xs) i mv mi = i"
| "argmax_scan (Num x # xs) i mv mi =
     (if mv < x then argmax_scan xs (Suc i) x i else argmax_scan xs (Suc i) mv mi)"

definition np_argmax :: "('l::linorder) score list \<Rightarrow> error + nat" where
  "np_argmax v =
     (case v of
        [] \<Rightarrow> Inl ValueError
      | NaN # xs \<Rightarrow> Inr 0
      | Num x # xs \<Rightarrow> Inr (argmax_scan xs 1 x 0))"

text \<open>
  \<open>sample\<close> (lines 25 to 27): \<open>int(np.argmax(logits[0][-1], axis=-1))\<close> on logits of shape
  \<open>(batch, positions, vocabulary)\<close>.
\<close>

definition sample :: "('l::linorder) score list list list \<Rightarrow> error + int" where
  "sample logits =
     (case logits of
        [] \<Rightarrow> Inl IndexError
      | first # _ \<Rightarrow>
          if first = [] then Inl IndexError
          else (case np_argmax (last first) of
                  Inl e \<Rightarrow> Inl e
                | Inr i \<Rightarrow> Inr (int i)))"

text \<open>\<open>np.full(shape, fill_value)\<close> and \<open>np.triu(m, k)\<close>, which acts on the last two axes.\<close>

definition np_full :: "nat \<times> nat \<times> nat \<times> nat \<Rightarrow> 'v \<Rightarrow> 'v tensor4" where
  "np_full shape fill_value = (case shape of (a, b, c, d) \<Rightarrow>
     \<lparr>shape4 = (a, b, c, d),
      data4 = replicate a (replicate b (replicate c (replicate d fill_value)))\<rparr>)"

definition triu_matrix :: "int \<Rightarrow> fp list list \<Rightarrow> fp list list" where
  "triu_matrix k rows =
     map (\<lambda>(i, row). map (\<lambda>(j, x). if k \<le> int j - int i then x else Fin 0) (enumerate 0 row))
       (enumerate 0 rows)"

definition np_triu :: "fp tensor4 \<Rightarrow> int \<Rightarrow> fp tensor4" where
  "np_triu m k = m\<lparr>data4 := map (map (triu_matrix k)) (data4 m)\<rparr>"

text \<open>
  \<open>inference\<close> (lines 29 to 42), with the expression bound to its local variable
  \<open>causal_mask\<close> (lines 31 to 37) as a definition of its own. \<open>model.predict\<close> of the
  exported package is a parameter; it reads and updates the state \<open>kv_cache_state\<close>. The
  number of past tokens is a count: the driver starts it at zero and only ever adds to
  it.
\<close>

definition causal_mask :: "int list \<Rightarrow> nat \<Rightarrow> fp tensor4" where
  "causal_mask input_ids num_past =
     np_triu
       (np_full (1, 1, length input_ids, num_past + length input_ids)
          (if num_past = 0 then NegInf else Fin 0))
       1"

definition inference ::
  "(int list \<Rightarrow> fp tensor4 \<Rightarrow> 'st \<Rightarrow> 'l list list list \<times> 'st) \<Rightarrow> 'st \<Rightarrow> int list \<Rightarrow> nat
     \<Rightarrow> 'l list list list \<times> 'st" where
  "inference predict kv_cache_state input_ids num_past =
     predict input_ids (causal_mask input_ids num_past) kv_cache_state"

text \<open>
  The generator \<open>get_next_token\<close> (lines 22 to 57) as a state machine over its local
  variables: \<open>generator_start\<close> runs it up to the first \<open>yield\<close>, \<open>generator_resume\<close> from
  one \<open>yield\<close> to the next. The token it yields is \<open>token\<close>, an index into the
  vocabulary, which the 32-bit array of line 53 holds as it is.
\<close>

record 'st generator =
  kv_cache_state :: 'st
  token :: int
  num_past_tokens :: nat

definition generator_start ::
  "(int list \<Rightarrow> fp tensor4 \<Rightarrow> 'st \<Rightarrow> ('l::linorder) score list list list \<times> 'st) \<Rightarrow> 'st \<Rightarrow> int list
     \<Rightarrow> error + 'st generator" where
  "generator_start predict make_state prompt_tokens =
     (case inference predict make_state prompt_tokens 0 of
        (logits, st) \<Rightarrow>
          (case sample logits of
             Inl e \<Rightarrow> Inl e
           | Inr t \<Rightarrow> Inr \<lparr>kv_cache_state = st, token = t, num_past_tokens = length prompt_tokens\<rparr>))"

definition generator_resume ::
  "(int list \<Rightarrow> fp tensor4 \<Rightarrow> 'st \<Rightarrow> ('l::linorder) score list list list \<times> 'st) \<Rightarrow> 'st generator
     \<Rightarrow> error + 'st generator" where
  "generator_resume predict g =
     (case inference predict (kv_cache_state g) [token g] (num_past_tokens g) of
        (logits, st) \<Rightarrow>
          (case sample logits of
             Inl e \<Rightarrow> Inl e
           | Inr t \<Rightarrow> Inr \<lparr>kv_cache_state = st, token = t, num_past_tokens = num_past_tokens g + 1\<rparr>))"

text \<open>The generator after \<open>i\<close> resumptions, that is at its \<open>i\<close>-th \<open>yield\<close> counted from zero.\<close>

fun generator_at ::
  "(int list \<Rightarrow> fp tensor4 \<Rightarrow> 'st \<Rightarrow> ('l::linorder) score list list list \<times> 'st) \<Rightarrow> 'st \<Rightarrow> int list \<Rightarrow> nat
     \<Rightarrow> error + 'st generator" where
  "generator_at predict make_state prompt_tokens 0 = generator_start predict make_state prompt_tokens"
| "generator_at predict make_state prompt_tokens (Suc i) =
     (case generator_at predict make_state prompt_tokens i of
        Inl e \<Rightarrow> Inl e
      | Inr g \<Rightarrow> generator_resume predict g)"

text \<open>
  The loop of \<open>generate\<close> (lines 67 to 71) over the enumerated generator. \<open>i\<close> is the
  index of the token just yielded; an exception in the generator ends the call. With a
  negative \<open>max_new_tokens\<close> and no stop token the loop does not end, hence the option.
\<close>

partial_function (option) generate_loop ::
  "(int list \<Rightarrow> fp tensor4 \<Rightarrow> 'st \<Rightarrow> ('l::linorder) score list list list \<times> 'st) \<Rightarrow> int \<Rightarrow> int \<Rightarrow> nat
     \<Rightarrow> error + 'st generator \<Rightarrow> int list \<Rightarrow> (error + int list) option" where
  "generate_loop predict eos_token_id max_new_tokens i yielded extend_tokens =
     (case yielded of
        Inl e \<Rightarrow> Some (Inl e)
      | Inr g \<Rightarrow>
          if token g = eos_token_id \<or> int i = max_new_tokens then Some (Inr extend_tokens)
          else generate_loop predict eos_token_id max_new_tokens (Suc i)
                 (generator_resume predict g) (extend_tokens @ [token g]))"

text \<open>
  \<open>generate\<close> (lines 60 to 72) up to the tokenizer, which is outside this repository: the
  prompt arrives as its token ids, which go to the generator as 32-bit integers, and the
  result is the list handed to \<open>tokenizer.decode\<close>, the prompt's tokens followed by
  \<open>extend_tokens\<close>.
\<close>

text \<open>\<open>astype(np.int32)\<close> on token ids: values outside 32 bits wrap around.\<close>

definition astype_int32 :: "int list \<Rightarrow> int list" where
  "astype_int32 ids = map (\<lambda>x. (x + 2 ^ 31) mod 2 ^ 32 - 2 ^ 31) ids"

definition extend_tokens_of ::
  "(int list \<Rightarrow> fp tensor4 \<Rightarrow> 'st \<Rightarrow> ('l::linorder) score list list list \<times> 'st) \<Rightarrow> 'st \<Rightarrow> int \<Rightarrow> int list
     \<Rightarrow> int \<Rightarrow> (error + int list) option" where
  "extend_tokens_of predict make_state eos_token_id prompt_tokens max_new_tokens =
     generate_loop predict eos_token_id max_new_tokens 0
       (generator_start predict make_state (astype_int32 prompt_tokens)) []"

definition generate ::
  "(int list \<Rightarrow> fp tensor4 \<Rightarrow> 'st \<Rightarrow> ('l::linorder) score list list list \<times> 'st) \<Rightarrow> 'st \<Rightarrow> int \<Rightarrow> int list
     \<Rightarrow> int \<Rightarrow> (error + int list) option" where
  "generate predict make_state eos_token_id prompt_tokens max_new_tokens =
     (case extend_tokens_of predict make_state eos_token_id prompt_tokens max_new_tokens of
        None \<Rightarrow> None
      | Some (Inl e) \<Rightarrow> Some (Inl e)
      | Some (Inr extend_tokens) \<Rightarrow> Some (Inr (prompt_tokens @ extend_tokens)))"

section \<open>Auxiliary notions for the statements\<close>

text \<open>All entries of a five-dimensional tensor, in row-major order.\<close>

definition entries5 :: "'a tensor5 \<Rightarrow> 'a list" where
  "entries5 t = concat (concat (concat (concat (data5 t))))"

text \<open>
  A small cache used to run the theorems: one layer, one sequence, one head, room for
  three positions, features of size one.
\<close>

definition demo_cache :: "int cache" where
  "demo_cache = \<lparr>past_seen_tokens = 1,
      k_cache = \<lparr>shape5 = (1, 1, 1, 3, 1), data5 = [[[[[1], [2], [3]]]]]\<rparr>,
      v_cache = \<lparr>shape5 = (1, 1, 1, 3, 1), data5 = [[[[[4], [5], [6]]]]]\<rparr>\<rparr>"

text \<open>The token the generator yields at its \<open>j\<close>-th \<open>yield\<close>, when it gets that far.\<close>

definition token_at ::
  "(int list \<Rightarrow> fp tensor4 \<Rightarrow> 'st \<Rightarrow> ('l::linorder) score list list list \<times> 'st) \<Rightarrow> 'st \<Rightarrow> int list
     \<Rightarrow> nat \<Rightarrow> int" where
  "token_at predict make_state prompt_tokens j =
     (case generator_at predict make_state prompt_tokens j of Inl e \<Rightarrow> 0 | Inr g \<Rightarrow> token g)"

text \<open>Positions \<open>[0, e)\<close> of every layer, sequence and head of a buffer.\<close>

definition prefix5 :: "nat \<Rightarrow> 'a tensor5 \<Rightarrow> 'a list list list list list" where
  "prefix5 e t = map (map (map (take e))) (data5 t)"

text \<open>
  What a buffer holds outside the positions \<open>[p, p + n)\<close>: for every layer, sequence and
  head, the positions before \<open>p\<close> and the positions from \<open>p + n\<close> on.
\<close>

definition outside5 :: "nat \<Rightarrow> nat \<Rightarrow> 'a tensor5 \<Rightarrow> ('a list list \<times> 'a list list) list list list" where
  "outside5 p n t = map (map (map (\<lambda>ps. (take p ps, drop (p + n) ps)))) (data5 t)"

text \<open>Both buffers of a cache are well formed and have the given shape.\<close>

definition wf_cache :: "nat \<times> nat \<times> nat \<times> nat \<times> nat \<Rightarrow> 'a cache \<Rightarrow> bool" where
  "wf_cache shape kv \<longleftrightarrow>
     wf5 (k_cache kv) \<and> shape5 (k_cache kv) = shape \<and> wf5 (v_cache kv) \<and> shape5 (v_cache kv) = shape"

text \<open>
  The second cache has the counter of the first and agrees with it on everything outside
  the positions \<open>[p, p + n)\<close>.
\<close>

definition frame_kept :: "nat \<Rightarrow> nat \<Rightarrow> 'a cache \<Rightarrow> 'a cache \<Rightarrow> bool" where
  "frame_kept p n kv kv' \<longleftrightarrow>
     past_seen_tokens kv' = past_seen_tokens kv \<and>
     outside5 p n (k_cache kv') = outside5 p n (k_cache kv) \<and>
     outside5 p n (v_cache kv') = outside5 p n (v_cache kv)"

text \<open>
  A small attention module, decoder and a second cache used to run the theorems. Hidden
  vectors are integers; the key of a position is its hidden value, the value is that plus
  \<open>100\<close>, and the attention function lists the keys and values it was given, or refuses
  a mask whose width is not the number of key positions. The second
  cache equals the first below position \<open>2\<close> and differs at position \<open>2\<close>.
\<close>

definition demo_attention :: "(int, unit, int, int list list) attention" where
  "demo_attention =
     \<lparr>layer_idx = 0,
      num_key_value_groups = 1,
      query_states_of = (\<lambda>hidden_states position_ids. ()),
      key_states_of = (\<lambda>hidden_states position_ids.
         \<lparr>shape4 = (1, 1, q_len_of hidden_states, 1),
          data4 = [[map (\<lambda>x. [x]) (hd hidden_states)]]\<rparr>),
      value_states_of = (\<lambda>hidden_states.
         \<lparr>shape4 = (1, 1, q_len_of hidden_states, 1),
          data4 = [[map (\<lambda>x. [x + 100]) (hd hidden_states)]]\<rparr>),
      repeat_kv = (\<lambda>t n_rep. t),
      scaled_dot_product_attention = (\<lambda>q k v m.
         if fst (snd (snd (shape4 k))) = last_dim m
         then Inr (data4 k ! 0 ! 0 @ data4 v ! 0 ! 0) else Inl RuntimeError),
      o_proj = (\<lambda>s. [concat s])\<rparr>"

definition demo_model :: "(int, unit, int, int list list, int) causal_lm" where
  "demo_model =
     \<lparr>embed_tokens = (\<lambda>input_ids. [input_ids]),
      layers = [\<lparr>self_attn = demo_attention, mlp = (\<lambda>hidden_states attn_output. hidden_states)\<rparr>],
      lm_head = (\<lambda>hidden_states. [map (\<lambda>x. [x]) (hd hidden_states)])\<rparr>"

definition stale_cache :: "int cache" where
  "stale_cache = \<lparr>past_seen_tokens = 1,
      k_cache = \<lparr>shape5 = (1, 1, 1, 3, 1), data5 = [[[[[1], [2], [99]]]]]\<rparr>,
      v_cache = \<lparr>shape5 = (1, 1, 1, 3, 1), data5 = [[[[[4], [5], [77]]]]]\<rparr>\<rparr>"

section \<open>Slice assignment keeps the cache well formed\<close>

lemma length_expand [simp]: "length (expand n xs) = n"
  by (simp add: expand_def)

lemma expand_same: "length xs = n \<Longrightarrow> expand n xs = xs"
  by (simp add: expand_def)

lemma length_write_positions:
  "start + len \<le> length dst \<Longrightarrow> length (write_positions start len d dst src) = length dst"
  by (simp add: write_positions_def)

lemma rows_ok_write_positions:
  assumes "rows_ok c d dst" and "start + len \<le> c"
  shows "rows_ok c d (write_positions start len d dst src)"
proof -
  have "length (write_positions start len d dst src) = c"
    using assms by (simp add: rows_ok_def length_write_positions)
  moreover have "\<forall>r \<in> set (write_positions start len d dst src). length r = d"
    using assms by (auto simp: rows_ok_def write_positions_def dest: in_set_takeD in_set_dropD)
  ultimately show ?thesis by (simp add: rows_ok_def)
qed

lemma length_write_heads:
  "hv \<le> length dst \<Longrightarrow> length (write_heads hv start len d dst src) = length dst"
  by (simp add: write_heads_def)

lemma heads_ok_write_heads:
  assumes "heads_ok h c d dst" and "start + len \<le> c" and "hv \<le> h"
  shows "heads_ok h c d (write_heads hv start len d dst src)"
proof -
  have len: "length (write_heads hv start len d dst src) = h"
    using assms by (simp add: heads_ok_def length_write_heads)
  have "rows_ok c d ps" if "ps \<in> set (write_heads hv start len d dst src)" for ps
  proof -
    from that consider
      (new) x y where "x \<in> set (take hv dst)" "ps = write_positions start len d x y"
      | (old) "ps \<in> set (drop hv dst)"
      by (auto simp: write_heads_def dest: set_zip_leftD)
    then show ?thesis
    proof cases
      case new
      then have "rows_ok c d x" using assms(1) by (auto simp: heads_ok_def dest: in_set_takeD)
      then show ?thesis using new assms(2) by (simp add: rows_ok_write_positions)
    next
      case old
      then show ?thesis using assms(1) by (auto simp: heads_ok_def dest: in_set_dropD)
    qed
  qed
  then show ?thesis using len by (simp add: heads_ok_def)
qed

lemma batch_ok_write_batch:
  assumes "batch_ok b h c d dst" and "start + len \<le> c" and "hv \<le> h"
  shows "batch_ok b h c d (write_batch b hv start len d dst src)"
proof -
  have len: "length (write_batch b hv start len d dst src) = b"
    using assms(1) by (simp add: batch_ok_def write_batch_def)
  have "heads_ok h c d hs" if "hs \<in> set (write_batch b hv start len d dst src)" for hs
  proof -
    from that obtain x y where "x \<in> set dst" "hs = write_heads hv start len d x y"
      by (auto simp: write_batch_def dest: set_zip_leftD)
    then show ?thesis using assms by (auto simp: batch_ok_def heads_ok_write_heads)
  qed
  then show ?thesis using len by (simp add: batch_ok_def)
qed

lemma slice_bound_le [simp]: "slice_bound c i \<le> c"
  by (auto simp: slice_bound_def)

lemma slice_range_le:
  "slice_bound c i + (slice_bound c j - slice_bound c i) \<le> c"
proof (cases "slice_bound c i \<le> slice_bound c j")
  case True
  then have "slice_bound c i + (slice_bound c j - slice_bound c i) = slice_bound c j" by simp
  then show ?thesis by (simp del: add_diff_inverse_nat)
next
  case False
  then show ?thesis by simp
qed

lemma index_axis_less: "index_axis n i = Some l \<Longrightarrow> l < n"
  by (auto simp: index_axis_def split: if_splits)

lemma setitem_cases:
  obtains (index) "index_axis (fst (shape5 t)) lidx = None" "setitem t lidx i j src = Inl IndexError"
  | (shape) "setitem t lidx i j src = Inl RuntimeError"
  | (ok) nl b h c d l hv where "shape5 t = (nl, b, h, c, d)" "index_axis nl lidx = Some l" "hv \<le> h"
      "setitem t lidx i j src =
         Inr (t\<lparr>data5 := (data5 t)[l := write_batch b hv (slice_bound c i)
                  (slice_bound c j - slice_bound c i) d (data5 t ! l) (data4 src)]\<rparr>)"
proof -
  obtain nl b h c d where s: "shape5 t = (nl, b, h, c, d)" by (cases "shape5 t")
  obtain bs hs qs ds where s4: "shape4 src = (bs, hs, qs, ds)" by (cases "shape4 src")
  show thesis
  proof (cases "index_axis nl lidx")
    case None
    then show ?thesis using s s4 index by (simp add: setitem_def)
  next
    case (Some l)
    show ?thesis
    proof (cases "expandable bs b \<and> expandable hs (min hs h) \<and>
         expandable qs (slice_bound c j - slice_bound c i) \<and> expandable ds d")
      case True
      have "setitem t lidx i j src =
         Inr (t\<lparr>data5 := (data5 t)[l := write_batch b (min hs h) (slice_bound c i)
                  (slice_bound c j - slice_bound c i) d (data5 t ! l) (data4 src)]\<rparr>)"
        using s s4 Some True by (simp add: setitem_def Let_def)
      then show ?thesis using ok [of nl b h c d l "min hs h"] s Some by simp
    next
      case False
      then have "setitem t lidx i j src = Inl RuntimeError"
        using s s4 Some by (auto simp add: setitem_def Let_def)
      then show ?thesis by (rule shape)
    qed
  qed
qed

lemma setitem_wf:
  assumes "wf5 t" and "setitem t lidx i j src = Inr t'"
  shows "wf5 t' \<and> shape5 t' = shape5 t"
proof (cases t lidx i j src rule: setitem_cases)
  case index
  then show ?thesis using assms by simp
next
  case shape
  then show ?thesis using assms by simp
next
  case (ok nl b h c d l hv)
  let ?new = "write_batch b hv (slice_bound c i) (slice_bound c j - slice_bound c i) d
                (data5 t ! l) (data4 src)"
  have t': "t' = t\<lparr>data5 := (data5 t)[l := ?new]\<rparr>" using ok assms by simp
  have l: "l < length (data5 t)" using assms(1) ok(1,2) by (auto simp: wf5_def dest: index_axis_less)
  have "batch_ok b h c d (data5 t ! l)" using assms(1) ok(1) l by (simp add: wf5_def)
  then have new: "batch_ok b h c d ?new"
    using ok(3) by (intro batch_ok_write_batch slice_range_le)
  have "\<forall>bs \<in> set ((data5 t)[l := ?new]). batch_ok b h c d bs"
    using assms(1) ok(1) new by (auto simp: wf5_def dest!: subsetD [OF set_update_subset_insert])
  then show ?thesis using assms(1) ok(1) t' by (simp add: wf5_def)
qed

lemma batch_ok_nth: "batch_ok b h c d x \<Longrightarrow> bi < b \<Longrightarrow> heads_ok h c d (x ! bi)"
  by (simp add: batch_ok_def)

lemma heads_ok_nth: "heads_ok h c d x \<Longrightarrow> hi < h \<Longrightarrow> rows_ok c d (x ! hi)"
  by (simp add: heads_ok_def)

lemma write_positions_exact:
  assumes "rows_ok len d src"
  shows "write_positions start len d dst src = take start dst @ src @ drop (start + len) dst"
proof -
  have "expand len src = src" using assms by (simp add: rows_ok_def expand_same)
  moreover have "map (expand d) src = src"
    using assms by (intro map_idI) (simp add: rows_ok_def expand_same)
  ultimately show ?thesis by (simp add: write_positions_def)
qed

lemma write_heads_exact:
  assumes "heads_ok h c d dst" and "heads_ok h len d src" and "hi < h"
  shows "write_heads h start len d dst src ! hi =
           take start (dst ! hi) @ src ! hi @ drop (start + len) (dst ! hi)"
proof -
  have l: "length dst = h" "length src = h" using assms by (simp_all add: heads_ok_def)
  then have "write_heads h start len d dst src = map2 (write_positions start len d) dst src"
    by (simp add: write_heads_def expand_same)
  then have "write_heads h start len d dst src ! hi = write_positions start len d (dst ! hi) (src ! hi)"
    using l assms(3) by simp
  moreover have "rows_ok len d (src ! hi)" using assms(2,3) by (rule heads_ok_nth)
  ultimately show ?thesis by (simp add: write_positions_exact)
qed

lemma write_batch_exact:
  assumes "batch_ok b h c d dst" and "batch_ok b h len d src" and "bi < b" and "hi < h"
  shows "write_batch b h start len d dst src ! bi ! hi =
           take start (dst ! bi ! hi) @ src ! bi ! hi @ drop (start + len) (dst ! bi ! hi)"
proof -
  have l: "length dst = b" "length src = b" using assms by (simp_all add: batch_ok_def)
  then have "write_batch b h start len d dst src ! bi =
               write_heads h start len d (dst ! bi) (src ! bi)"
    using assms(3) by (simp add: write_batch_def expand_same)
  moreover have "heads_ok h c d (dst ! bi)" using assms(1,3) by (rule batch_ok_nth)
  moreover have "heads_ok h len d (src ! bi)" using assms(2,3) by (rule batch_ok_nth)
  ultimately show ?thesis using assms(4) by (simp add: write_heads_exact)
qed

lemma write_positions_empty: "write_positions start 0 d dst src = dst"
  by (simp add: write_positions_def expand_def)

lemma map2_fst_same: "length ys = length xs \<Longrightarrow> map2 (\<lambda>x y. x) xs ys = xs"
  by (rule nth_equalityI) simp_all

lemma write_heads_empty:
  assumes "hv \<le> length dst"
  shows "write_heads hv start 0 d dst src = dst"
proof -
  have "map2 (write_positions start 0 d) (take hv dst) (expand hv src) = take hv dst"
    unfolding write_positions_empty using assms by (intro map2_fst_same) simp
  then show ?thesis by (simp add: write_heads_def)
qed

lemma write_batch_empty:
  assumes "batch_ok b h c d dst" and "hv \<le> h"
  shows "write_batch b hv start 0 d dst src = dst"
proof (rule nth_equalityI)
  show "length (write_batch b hv start 0 d dst src) = length dst"
    using assms(1) by (simp add: write_batch_def batch_ok_def)
next
  fix i assume "i < length (write_batch b hv start 0 d dst src)"
  then have i: "i < b" "i < length dst" using assms(1) by (simp_all add: write_batch_def batch_ok_def)
  then have "hv \<le> length (dst ! i)" using assms by (auto simp: batch_ok_def heads_ok_def)
  then show "write_batch b hv start 0 d dst src ! i = dst ! i"
    using i by (simp add: write_batch_def write_heads_empty)
qed

lemma setitem_exact:
  assumes wf: "wf5 t" and sh: "shape5 t = (nl, b, h, c, d)"
    and l: "index_axis nl lidx = Some l"
    and src: "shape4 src = (b, h, nat (j - i), d)" "wf4 src"
    and rng: "0 \<le> i" "i \<le> j" "j \<le> int c"
  shows "\<exists>t'. setitem t lidx i j src = Inr t' \<and> wf5 t' \<and> shape5 t' = (nl, b, h, c, d) \<and>
           (\<forall>bi < b. \<forall>hi < h. data5 t' ! l ! bi ! hi =
               take (nat i) (data5 t ! l ! bi ! hi) @ data4 src ! bi ! hi @
               drop (nat j) (data5 t ! l ! bi ! hi)) \<and>
           (\<forall>l'. l' \<noteq> l \<longrightarrow> data5 t' ! l' = data5 t ! l')"
proof -
  have sb: "slice_bound c i = nat i" "slice_bound c j = nat j"
    using rng by (simp_all add: slice_bound_def)
  have len: "nat j - nat i = nat (j - i)" using rng by simp
  have sum: "nat i + nat (j - i) = nat j" using rng by simp
  let ?new = "write_batch b h (nat i) (nat (j - i)) d (data5 t ! l) (data4 src)"
  let ?t' = "t\<lparr>data5 := (data5 t)[l := ?new]\<rparr>"
  have eq: "setitem t lidx i j src = Inr ?t'"
    using sh l src(1) by (simp add: setitem_def Let_def sb len expandable_def)
  have ll: "l < length (data5 t)" using wf sh l by (auto simp: wf5_def dest: index_axis_less)
  have old: "batch_ok b h c d (data5 t ! l)" using wf sh ll by (simp add: wf5_def)
  have new: "batch_ok b h (nat (j - i)) d (data4 src)" using src by (simp add: wf4_def)
  have "\<forall>bi < b. \<forall>hi < h. ?new ! bi ! hi =
               take (nat i) (data5 t ! l ! bi ! hi) @ data4 src ! bi ! hi @
               drop (nat j) (data5 t ! l ! bi ! hi)"
    using write_batch_exact [OF old new, of _ _ "nat i"] by (simp add: sum)
  then have a: "\<forall>bi < b. \<forall>hi < h. data5 ?t' ! l ! bi ! hi =
               take (nat i) (data5 t ! l ! bi ! hi) @ data4 src ! bi ! hi @
               drop (nat j) (data5 t ! l ! bi ! hi)"
    using ll by simp
  have b: "\<forall>l'. l' \<noteq> l \<longrightarrow> data5 ?t' ! l' = data5 t ! l'" by simp
  from setitem_wf [OF wf eq] have "wf5 ?t'" "shape5 ?t' = (nl, b, h, c, d)" using sh by simp_all
  then show ?thesis using eq a b by blast
qed

lemma getitem_prefix:
  assumes "shape5 t = (nl, b, h, c, d)" and "index_axis nl lidx = Some l"
  shows "getitem t lidx j =
           Inr \<lparr>shape4 = (b, h, slice_bound c j, d),
                data4 = map (map (take (slice_bound c j))) (data5 t ! l)\<rparr>"
  using assms by (simp add: getitem_def)

lemma wf5_nth:
  assumes "wf5 t" and "shape5 t = (nl, b, h, c, d)" and "l < nl" and "bi < b" and "hi < h"
  shows "length (data5 t ! l) = b" and "length (data5 t ! l ! bi) = h"
    and "length (data5 t ! l ! bi ! hi) = c"
proof -
  have bo: "batch_ok b h c d (data5 t ! l)" using assms(1-3) by (simp add: wf5_def)
  then show "length (data5 t ! l) = b" by (simp add: batch_ok_def)
  have ho: "heads_ok h c d (data5 t ! l ! bi)" using bo assms(4) by (rule batch_ok_nth)
  then show "length (data5 t ! l ! bi) = h" by (simp add: heads_ok_def)
  have "rows_ok c d (data5 t ! l ! bi ! hi)" using ho assms(5) by (rule heads_ok_nth)
  then show "length (data5 t ! l ! bi ! hi) = c" by (simp add: rows_ok_def)
qed

lemma wf4_nth:
  assumes "wf4 t" and "shape4 t = (b, h, c, d)" and "bi < b" and "hi < h"
  shows "length (data4 t ! bi ! hi) = c"
proof -
  have "batch_ok b h c d (data4 t)" using assms(1,2) by (simp add: wf4_def)
  then have "heads_ok h c d (data4 t ! bi)" using assms(3) by (rule batch_ok_nth)
  then have "rows_ok c d (data4 t ! bi ! hi)" using assms(4) by (rule heads_ok_nth)
  then show ?thesis by (simp add: rows_ok_def)
qed

lemma prefix_after_write:
  assumes t': "wf5 t'" "shape5 t' = (nl, b, h, c, d)" and l: "index_axis nl lidx = Some l"
    and old: "wf5 t" "shape5 t = (nl, b, h, c, d)"
    and src: "shape4 src = (b, h, nat (j - i), d)" "wf4 src"
    and rng: "0 \<le> i" "i \<le> j" "j \<le> int c"
    and w: "\<forall>bi < b. \<forall>hi < h. data5 t' ! l ! bi ! hi =
               take (nat i) (data5 t ! l ! bi ! hi) @ data4 src ! bi ! hi @
               drop (nat j) (data5 t ! l ! bi ! hi)"
  shows "\<exists>p. getitem t' lidx j = Inr p \<and> shape4 p = (b, h, nat j, d) \<and>
           (\<forall>bi < b. \<forall>hi < h. data4 p ! bi ! hi =
               take (nat i) (data5 t ! l ! bi ! hi) @ data4 src ! bi ! hi)"
proof -
  have sb: "slice_bound c j = nat j" using rng by (simp add: slice_bound_def)
  let ?p = "\<lparr>shape4 = (b, h, nat j, d), data4 = map (map (take (nat j))) (data5 t' ! l)\<rparr>"
  have g: "getitem t' lidx j = Inr ?p" using getitem_prefix [OF t'(2) l, of j] sb by simp
  have ln: "l < nl" using l by (rule index_axis_less)
  have "data4 ?p ! bi ! hi = take (nat i) (data5 t ! l ! bi ! hi) @ data4 src ! bi ! hi"
    if "bi < b" "hi < h" for bi hi
  proof -
    have "data4 ?p ! bi ! hi = take (nat j) (data5 t' ! l ! bi ! hi)"
      using wf5_nth [OF t' ln that] that by simp
    also have "\<dots> = take (nat j) (take (nat i) (data5 t ! l ! bi ! hi) @ data4 src ! bi ! hi @
               drop (nat j) (data5 t ! l ! bi ! hi))"
      using w that by simp
    also have "\<dots> = take (nat i) (data5 t ! l ! bi ! hi) @ data4 src ! bi ! hi"
    proof -
      have "length (data5 t ! l ! bi ! hi) = c" using wf5_nth [OF old ln that] by simp
      moreover have "length (data4 src ! bi ! hi) = nat (j - i)" using wf4_nth [OF src(2,1) that] .
      ultimately have "length (take (nat i) (data5 t ! l ! bi ! hi) @ data4 src ! bi ! hi) = nat j"
        using rng by (simp add: min_def) linarith
      then show ?thesis
        by (metis append.assoc append_eq_conv_conj)
    qed
    finally show ?thesis .
  qed
  then show ?thesis using g by (intro exI [of _ ?p]) simp
qed

lemma update_exact:
  assumes wfk: "wf5 (k_cache kv)" "shape5 (k_cache kv) = (nl, b, h, c, d)"
    and wfv: "wf5 (v_cache kv)" "shape5 (v_cache kv) = (nl, b, h, c, d)"
    and l: "index_axis nl lidx = Some l"
    and ks: "shape4 k = (b, h, nat (j - i), d)" "wf4 k"
    and vs: "shape4 v = (b, h, nat (j - i), d)" "wf4 v"
    and rng: "0 \<le> i" "i \<le> j" "j \<le> int c"
  shows "\<exists>kp vp kv'. update kv k v lidx [i, j] = (Inr (kp, vp), kv') \<and>
           getitem (k_cache kv') lidx j = Inr kp \<and> getitem (v_cache kv') lidx j = Inr vp \<and>
           shape4 kp = (b, h, nat j, d) \<and> shape4 vp = (b, h, nat j, d) \<and>
           (\<forall>bi < b. \<forall>hi < h.
              data4 kp ! bi ! hi = take (nat i) (data5 (k_cache kv) ! l ! bi ! hi) @ data4 k ! bi ! hi \<and>
              data4 vp ! bi ! hi = take (nat i) (data5 (v_cache kv) ! l ! bi ! hi) @ data4 v ! bi ! hi) \<and>
           past_seen_tokens kv' = past_seen_tokens kv \<and>
           wf5 (k_cache kv') \<and> shape5 (k_cache kv') = (nl, b, h, c, d) \<and>
           wf5 (v_cache kv') \<and> shape5 (v_cache kv') = (nl, b, h, c, d) \<and>
           (\<forall>bi < b. \<forall>hi < h.
              data5 (k_cache kv') ! l ! bi ! hi =
                take (nat i) (data5 (k_cache kv) ! l ! bi ! hi) @ data4 k ! bi ! hi @
                drop (nat j) (data5 (k_cache kv) ! l ! bi ! hi) \<and>
              data5 (v_cache kv') ! l ! bi ! hi =
                take (nat i) (data5 (v_cache kv) ! l ! bi ! hi) @ data4 v ! bi ! hi @
                drop (nat j) (data5 (v_cache kv) ! l ! bi ! hi)) \<and>
           (\<forall>l'. l' \<noteq> l \<longrightarrow> data5 (k_cache kv') ! l' = data5 (k_cache kv) ! l' \<and>
                             data5 (v_cache kv') ! l' = data5 (v_cache kv) ! l')"
proof -
  from setitem_exact [OF wfk l ks rng] obtain kc where
    kc: "setitem (k_cache kv) lidx i j k = Inr kc" "wf5 kc" "shape5 kc = (nl, b, h, c, d)"
      "\<forall>bi < b. \<forall>hi < h. data5 kc ! l ! bi ! hi =
               take (nat i) (data5 (k_cache kv) ! l ! bi ! hi) @ data4 k ! bi ! hi @
               drop (nat j) (data5 (k_cache kv) ! l ! bi ! hi)"
      "\<forall>l'. l' \<noteq> l \<longrightarrow> data5 kc ! l' = data5 (k_cache kv) ! l'" by blast
  from setitem_exact [OF wfv l vs rng] obtain vc where
    vc: "setitem (v_cache kv) lidx i j v = Inr vc" "wf5 vc" "shape5 vc = (nl, b, h, c, d)"
      "\<forall>bi < b. \<forall>hi < h. data5 vc ! l ! bi ! hi =
               take (nat i) (data5 (v_cache kv) ! l ! bi ! hi) @ data4 v ! bi ! hi @
               drop (nat j) (data5 (v_cache kv) ! l ! bi ! hi)"
      "\<forall>l'. l' \<noteq> l \<longrightarrow> data5 vc ! l' = data5 (v_cache kv) ! l'" by blast
  from prefix_after_write [OF kc(2,3) l wfk ks rng kc(4)] obtain kp where
    kp: "getitem kc lidx j = Inr kp" "shape4 kp = (b, h, nat j, d)"
      "\<forall>bi < b. \<forall>hi < h. data4 kp ! bi ! hi =
               take (nat i) (data5 (k_cache kv) ! l ! bi ! hi) @ data4 k ! bi ! hi" by blast
  from prefix_after_write [OF vc(2,3) l wfv vs rng vc(4)] obtain vp where
    vp: "getitem vc lidx j = Inr vp" "shape4 vp = (b, h, nat j, d)"
      "\<forall>bi < b. \<forall>hi < h. data4 vp ! bi ! hi =
               take (nat i) (data5 (v_cache kv) ! l ! bi ! hi) @ data4 v ! bi ! hi" by blast
  let ?kv' = "kv\<lparr>k_cache := kc, v_cache := vc\<rparr>"
  have "update kv k v lidx [i, j] = (Inr (kp, vp), ?kv')"
    using kc(1) vc(1) kp(1) vp(1) by (simp add: update_def)
  then show ?thesis
    using kc(2-5) vc(2-5) kp vp
    by (intro exI [of _ kp] exI [of _ vp] exI [of _ ?kv']) simp
qed

section \<open>Properties of the cache\<close>

text \<open>
  C10. For every cache, calling \<open>update\<close> with a \<open>slice_indices\<close> argument that does not
  have exactly two elements raises \<open>ValueError\<close>; the check comes before any write, so
  both buffers and the counter of seen tokens are what they were.
\<close>

theorem update_bad_slice_indices:
  "length slice_indices \<noteq> 2 \<Longrightarrow>
     update self k_state v_state lidx slice_indices = (Inl ValueError, self)"
  by (simp add: update_def)

theorem update_bad_slice_indices_witness:
  "length [0::int, 1, 2] \<noteq> 2 \<and>
   update \<lparr>past_seen_tokens = 0,
           k_cache = \<lparr>shape5 = (1, 1, 1, 2, 1), data5 = [[[[[0::int], [0]]]]]\<rparr>,
           v_cache = \<lparr>shape5 = (1, 1, 1, 2, 1), data5 = [[[[[0], [0]]]]]\<rparr>\<rparr>
          \<lparr>shape4 = (1, 1, 1, 1), data4 = [[[[7]]]]\<rparr>
          \<lparr>shape4 = (1, 1, 1, 1), data4 = [[[[9]]]]\<rparr> 0 [0, 1, 2]
     = (Inl ValueError,
        \<lparr>past_seen_tokens = 0,
         k_cache = \<lparr>shape5 = (1, 1, 1, 2, 1), data5 = [[[[[0], [0]]]]]\<rparr>,
         v_cache = \<lparr>shape5 = (1, 1, 1, 2, 1), data5 = [[[[[0], [0]]]]]\<rparr>\<rparr>)"
  using update_bad_slice_indices
    [of "[0::int, 1, 2]"
        "\<lparr>past_seen_tokens = 0,
           k_cache = \<lparr>shape5 = (1, 1, 1, 2, 1), data5 = [[[[[0::int], [0]]]]]\<rparr>,
           v_cache = \<lparr>shape5 = (1, 1, 1, 2, 1), data5 = [[[[[0], [0]]]]]\<rparr>\<rparr>"
        "\<lparr>shape4 = (1, 1, 1, 1), data4 = [[[[7]]]]\<rparr>"
        "\<lparr>shape4 = (1, 1, 1, 1), data4 = [[[[9]]]]\<rparr>" 0]
  by simp

text \<open>
  C4. For a cache with \<open>0 \<le> rangeBegin \<le> rangeEnd \<le> maxContextLength\<close> and chunks of
  \<open>rangeEnd - rangeBegin\<close> positions (in the cache's batch, head and feature sizes, for a
  valid layer), \<open>update\<close> succeeds and what it returns, which is the read of the prefix
  up to \<open>rangeEnd\<close> of the updated buffers, holds at every sequence and head the
  contents the buffer had at positions \<open>[0, rangeBegin)\<close> followed by the written chunk at
  \<open>[rangeBegin, rangeEnd)\<close>.
\<close>

theorem update_then_read_prefix:
  assumes "wf5 (k_cache kv)" and "shape5 (k_cache kv) = (nl, b, h, c, d)"
    and "wf5 (v_cache kv)" and "shape5 (v_cache kv) = (nl, b, h, c, d)"
    and "index_axis nl lidx = Some l"
    and "shape4 k = (b, h, nat (j - i), d)" and "wf4 k"
    and "shape4 v = (b, h, nat (j - i), d)" and "wf4 v"
    and "0 \<le> i" and "i \<le> j" and "j \<le> int c"
  shows "\<exists>kp vp kv'. update kv k v lidx [i, j] = (Inr (kp, vp), kv') \<and>
           getitem (k_cache kv') lidx j = Inr kp \<and> getitem (v_cache kv') lidx j = Inr vp \<and>
           shape4 kp = (b, h, nat j, d) \<and> shape4 vp = (b, h, nat j, d) \<and>
           (\<forall>bi < b. \<forall>hi < h.
              data4 kp ! bi ! hi = take (nat i) (data5 (k_cache kv) ! l ! bi ! hi) @ data4 k ! bi ! hi \<and>
              data4 vp ! bi ! hi = take (nat i) (data5 (v_cache kv) ! l ! bi ! hi) @ data4 v ! bi ! hi)"
proof -
  from update_exact [OF assms] obtain kp vp kv' where
    "update kv k v lidx [i, j] = (Inr (kp, vp), kv')"
    "getitem (k_cache kv') lidx j = Inr kp" "getitem (v_cache kv') lidx j = Inr vp"
    "shape4 kp = (b, h, nat j, d)" "shape4 vp = (b, h, nat j, d)"
    "\<forall>bi < b. \<forall>hi < h.
              data4 kp ! bi ! hi = take (nat i) (data5 (k_cache kv) ! l ! bi ! hi) @ data4 k ! bi ! hi \<and>
              data4 vp ! bi ! hi = take (nat i) (data5 (v_cache kv) ! l ! bi ! hi) @ data4 v ! bi ! hi"
    by blast
  then show ?thesis by blast
qed

lemma take_all_layer:
  assumes "batch_ok b h c d x"
  shows "map (map (take c)) x = x"
proof -
  have *: "map (take c) hs = hs" if "hs \<in> set x" for hs
    using assms that by (intro map_idI) (auto simp: batch_ok_def heads_ok_def rows_ok_def)
  show ?thesis by (rule map_idI) (rule *)
qed

lemma wf5_layer:
  "wf5 t \<Longrightarrow> shape5 t = (nl, b, h, c, d) \<Longrightarrow> l < nl \<Longrightarrow> batch_ok b h c d (data5 t ! l)"
  by (simp add: wf5_def)

lemma setitem_beyond_capacity:
  assumes wf: "wf5 t" and sh: "shape5 t = (nl, b, h, c, d)"
    and src: "shape4 src = (b, h, nat (j - i), d)"
    and rng: "0 \<le> i" "i \<le> j" "int c < j"
  shows "setitem t lidx i j src =
           (case index_axis nl lidx of None \<Rightarrow> Inl IndexError
            | Some l \<Rightarrow> if 2 \<le> j - i then Inl RuntimeError else Inr t)"
proof (cases "index_axis nl lidx")
  case None
  then show ?thesis using sh src by (simp add: setitem_def)
next
  case (Some l)
  have sj: "slice_bound c j = c" using rng by (simp add: slice_bound_def)
  have si: "slice_bound c i = min (nat i) c" using rng by (simp add: slice_bound_def)
  show ?thesis
  proof (cases "2 \<le> j - i")
    case True
    have "\<not> expandable (nat (j - i)) (c - min (nat i) c)"
      using True rng by (auto simp: expandable_def min_def)
    then show ?thesis using sh src Some True by (simp add: setitem_def Let_def sj si)
  next
    case False
    then have "int c \<le> i" using rng by linarith
    then have "c \<le> nat i" by linarith
    then have len: "c - min (nat i) c = 0" by simp
    have q: "expandable (nat (j - i)) 0" using False rng by (auto simp: expandable_def)
    have ll: "l < length (data5 t)" using wf sh Some by (auto simp: wf5_def dest: index_axis_less)
    have old: "batch_ok b h c d (data5 t ! l)" using wf sh ll by (simp add: wf5_def)
    have "write_batch b h (min (nat i) c) 0 d (data5 t ! l) (data4 src) = data5 t ! l"
      using old by (rule write_batch_empty) simp
    then have "setitem t lidx i j src = Inr (t\<lparr>data5 := (data5 t)[l := data5 t ! l]\<rparr>)"
      using sh src Some q by (simp add: setitem_def Let_def sj si len expandable_def)
    then show ?thesis using Some False by simp
  qed
qed

text \<open>
  C3, as the code has it. \<open>update\<close> has no capacity check and no overflow error of its
  own. For a call with \<open>0 \<le> begin \<le> end\<close>, \<open>end\<close> beyond the capacity and chunks of
  \<open>end - begin\<close> positions, the clamped slice no longer fits the chunk: the assignment
  fails with torch's \<open>RuntimeError\<close> when the chunk has two or more positions, and when it
  has at most one position the slice is empty, nothing is written and the call returns the
  whole buffer of the layer. In every case both buffers and the counter are as before.
\<close>

theorem update_beyond_capacity:
  assumes "wf5 (k_cache kv)" and "shape5 (k_cache kv) = (nl, b, h, c, d)"
    and "wf5 (v_cache kv)" and "shape5 (v_cache kv) = (nl, b, h, c, d)"
    and "shape4 k = (b, h, nat (j - i), d)" and "shape4 v = (b, h, nat (j - i), d)"
    and "0 \<le> i" and "i \<le> j" and "int c < j"
  shows "snd (update kv k v lidx [i, j]) = kv \<and>
         (index_axis nl lidx = None \<longrightarrow> fst (update kv k v lidx [i, j]) = Inl IndexError) \<and>
         (index_axis nl lidx \<noteq> None \<and> 2 \<le> j - i \<longrightarrow>
            fst (update kv k v lidx [i, j]) = Inl RuntimeError) \<and>
         (\<forall>l. index_axis nl lidx = Some l \<and> j - i \<le> 1 \<longrightarrow>
            fst (update kv k v lidx [i, j]) =
              Inr (\<lparr>shape4 = (b, h, c, d), data4 = data5 (k_cache kv) ! l\<rparr>,
                   \<lparr>shape4 = (b, h, c, d), data4 = data5 (v_cache kv) ! l\<rparr>))"
proof -
  note sk = setitem_beyond_capacity [OF assms(1,2,5,7,8,9), of lidx]
  note sv = setitem_beyond_capacity [OF assms(3,4,6,7,8,9), of lidx]
  have sj: "slice_bound c j = c" using assms(9) by (simp add: slice_bound_def)
  show ?thesis
  proof (cases "index_axis nl lidx")
    case None
    then show ?thesis using sk by (simp add: update_def)
  next
    case (Some l)
    show ?thesis
    proof (cases "2 \<le> j - i")
      case True
      then show ?thesis using Some sk by (simp add: update_def)
    next
      case False
      have ln: "l < nl" using Some by (rule index_axis_less)
      have gk: "getitem (k_cache kv) lidx j = Inr \<lparr>shape4 = (b, h, c, d), data4 = data5 (k_cache kv) ! l\<rparr>"
        using getitem_prefix [OF assms(2) Some, of j] take_all_layer [OF wf5_layer [OF assms(1,2) ln]]
        by (simp add: sj)
      have gv: "getitem (v_cache kv) lidx j = Inr \<lparr>shape4 = (b, h, c, d), data4 = data5 (v_cache kv) ! l\<rparr>"
        using getitem_prefix [OF assms(4) Some, of j] take_all_layer [OF wf5_layer [OF assms(3,4) ln]]
        by (simp add: sj)
      show ?thesis using Some False sk sv gk gv by (simp add: update_def)
    qed
  qed
qed

lemmas wf_defs = wf5_def wf4_def batch_ok_def heads_ok_def rows_ok_def

theorem update_then_read_prefix_witness:
  "wf5 (k_cache demo_cache) \<and> wf5 (v_cache demo_cache) \<and>
   index_axis 1 0 = Some 0 \<and>
   wf4 \<lparr>shape4 = (1, 1, 2, 1), data4 = [[[[8::int], [9]]]]\<rparr> \<and>
   wf4 \<lparr>shape4 = (1, 1, 2, 1), data4 = [[[[10::int], [11]]]]\<rparr> \<and>
   (\<exists>kp vp kv'.
      update demo_cache \<lparr>shape4 = (1, 1, 2, 1), data4 = [[[[8], [9]]]]\<rparr>
        \<lparr>shape4 = (1, 1, 2, 1), data4 = [[[[10], [11]]]]\<rparr> 0 [1, 3] = (Inr (kp, vp), kv') \<and>
      shape4 kp = (1, 1, 3, 1) \<and> shape4 vp = (1, 1, 3, 1) \<and>
      data4 kp ! 0 ! 0 = [[1], [8], [9]] \<and> data4 vp ! 0 ! 0 = [[4], [10], [11]])"
proof -
  let ?k = "\<lparr>shape4 = (1, 1, 2, 1), data4 = [[[[8::int], [9]]]]\<rparr>"
  let ?v = "\<lparr>shape4 = (1, 1, 2, 1), data4 = [[[[10::int], [11]]]]\<rparr>"
  have h1: "wf5 (k_cache demo_cache)" and h2: "shape5 (k_cache demo_cache) = (1, 1, 1, 3, 1)"
    and h3: "wf5 (v_cache demo_cache)" and h4: "shape5 (v_cache demo_cache) = (1, 1, 1, 3, 1)"
    by (simp_all add: demo_cache_def wf_defs)
  have h5: "index_axis 1 0 = Some 0" by (simp add: index_axis_def)
  have h6: "shape4 ?k = (1, 1, nat (3 - 1), 1)" and h7: "wf4 ?k"
    and h8: "shape4 ?v = (1, 1, nat (3 - 1), 1)" and h9: "wf4 ?v"
    by (simp_all add: wf_defs)
  have h10: "(0::int) \<le> 1" and h11: "(1::int) \<le> 3" and h12: "(3::int) \<le> int 3" by simp_all
  from update_then_read_prefix [OF h1 h2 h3 h4 h5 h6 h7 h8 h9 h10 h11 h12]
  obtain kp vp kv' where
    u: "update demo_cache ?k ?v 0 [1, 3] = (Inr (kp, vp), kv')"
    and s: "shape4 kp = (1, 1, nat 3, 1)" "shape4 vp = (1, 1, nat 3, 1)"
    and d: "\<forall>bi < 1. \<forall>hi < 1.
      data4 kp ! bi ! hi = take (nat 1) (data5 (k_cache demo_cache) ! 0 ! bi ! hi) @ data4 ?k ! bi ! hi \<and>
      data4 vp ! bi ! hi = take (nat 1) (data5 (v_cache demo_cache) ! 0 ! bi ! hi) @ data4 ?v ! bi ! hi"
    by blast
  from d have "data4 kp ! 0 ! 0 = [[1], [8], [9]]" "data4 vp ! 0 ! 0 = [[4], [10], [11]]"
    by (simp_all add: demo_cache_def)
  then show ?thesis using h1 h3 h5 h7 h9 u s by auto
qed

theorem update_beyond_capacity_witness:
  "wf5 (k_cache demo_cache) \<and> wf5 (v_cache demo_cache) \<and> (0::int) \<le> 3 \<and> (3::int) \<le> 4 \<and> int 3 < 4 \<and>
   update demo_cache \<lparr>shape4 = (1, 1, 1, 1), data4 = [[[[8]]]]\<rparr>
        \<lparr>shape4 = (1, 1, 1, 1), data4 = [[[[10]]]]\<rparr> 0 [3, 4] =
     (Inr (\<lparr>shape4 = (1, 1, 3, 1), data4 = [[[[1], [2], [3]]]]\<rparr>,
           \<lparr>shape4 = (1, 1, 3, 1), data4 = [[[[4], [5], [6]]]]\<rparr>), demo_cache) \<and>
   update demo_cache \<lparr>shape4 = (1, 1, 2, 1), data4 = [[[[8], [9]]]]\<rparr>
        \<lparr>shape4 = (1, 1, 2, 1), data4 = [[[[10], [11]]]]\<rparr> 0 [2, 4] = (Inl RuntimeError, demo_cache)"
proof -
  let ?k = "\<lparr>shape4 = (1, 1, 1, 1), data4 = [[[[8::int]]]]\<rparr>"
  let ?v = "\<lparr>shape4 = (1, 1, 1, 1), data4 = [[[[10::int]]]]\<rparr>"
  let ?k2 = "\<lparr>shape4 = (1, 1, 2, 1), data4 = [[[[8::int], [9]]]]\<rparr>"
  let ?v2 = "\<lparr>shape4 = (1, 1, 2, 1), data4 = [[[[10::int], [11]]]]\<rparr>"
  have h1: "wf5 (k_cache demo_cache)" and h2: "shape5 (k_cache demo_cache) = (1, 1, 1, 3, 1)"
    and h3: "wf5 (v_cache demo_cache)" and h4: "shape5 (v_cache demo_cache) = (1, 1, 1, 3, 1)"
    by (simp_all add: demo_cache_def wf_defs)
  have a: "shape4 ?k = (1, 1, nat (4 - 3), 1)" "shape4 ?v = (1, 1, nat (4 - 3), 1)" by simp_all
  have b: "shape4 ?k2 = (1, 1, nat (4 - 2), 1)" "shape4 ?v2 = (1, 1, nat (4 - 2), 1)" by simp_all
  have r: "(0::int) \<le> 3" "(3::int) \<le> 4" "int 3 < 4" "(0::int) \<le> 2" "(2::int) \<le> 4" by simp_all
  have i: "index_axis 1 0 = Some 0" by (simp add: index_axis_def)
  note one = update_beyond_capacity [OF h1 h2 h3 h4 a r(1,2,3), of 0]
  note two = update_beyond_capacity [OF h1 h2 h3 h4 b r(4,5,3), of 0]
  have "update demo_cache ?k ?v 0 [3, 4] =
     (Inr (\<lparr>shape4 = (1, 1, 3, 1), data4 = [[[[1], [2], [3]]]]\<rparr>,
           \<lparr>shape4 = (1, 1, 3, 1), data4 = [[[[4], [5], [6]]]]\<rparr>), demo_cache)"
    using one i by (simp add: prod_eq_iff demo_cache_def)
  moreover have "update demo_cache ?k2 ?v2 0 [2, 4] = (Inl RuntimeError, demo_cache)"
    using two i by (simp add: prod_eq_iff)
  ultimately show ?thesis using h1 h3 by simp
qed

text \<open>
  C3 as stated fails: with room for three positions, a one-position chunk for \<open>[3, 4)\<close>
  is accepted without any error, and a three-position chunk with the bounds \<open>[0, 4)\<close> is
  accepted and written.
\<close>

theorem update_beyond_capacity_counterexample:
  "fst (update demo_cache \<lparr>shape4 = (1, 1, 1, 1), data4 = [[[[8]]]]\<rparr>
        \<lparr>shape4 = (1, 1, 1, 1), data4 = [[[[10]]]]\<rparr> 0 [3, 4]) =
     Inr (\<lparr>shape4 = (1, 1, 3, 1), data4 = [[[[1], [2], [3]]]]\<rparr>,
          \<lparr>shape4 = (1, 1, 3, 1), data4 = [[[[4], [5], [6]]]]\<rparr>) \<and>
   update demo_cache \<lparr>shape4 = (1, 1, 3, 1), data4 = [[[[7], [8], [9]]]]\<rparr>
        \<lparr>shape4 = (1, 1, 3, 1), data4 = [[[[10], [11], [12]]]]\<rparr> 0 [0, 4] =
     (Inr (\<lparr>shape4 = (1, 1, 3, 1), data4 = [[[[7], [8], [9]]]]\<rparr>,
           \<lparr>shape4 = (1, 1, 3, 1), data4 = [[[[10], [11], [12]]]]\<rparr>),
      \<lparr>past_seen_tokens = 1,
       k_cache = \<lparr>shape5 = (1, 1, 1, 3, 1), data5 = [[[[[7], [8], [9]]]]]\<rparr>,
       v_cache = \<lparr>shape5 = (1, 1, 1, 3, 1), data5 = [[[[[10], [11], [12]]]]]\<rparr>\<rparr>)"
  by code_simp

lemma torch_zeros_ok:
  assumes "0 \<le> nl" "0 \<le> b" "0 \<le> h" "0 \<le> c" "0 \<le> d"
    and "nl < 2 ^ 63" "b < 2 ^ 63" "h < 2 ^ 63" "c < 2 ^ 63" "d < 2 ^ 63"
    and "nl * b * h * c * d < 2 ^ 63" and "nl * b * h * c * d \<le> int mem"
  shows "\<exists>t. torch_zeros mem (nl, b, h, c, d) = Inr t \<and>
             shape5 t = (nat nl, nat b, nat h, nat c, nat d) \<and> wf5 t \<and>
             set (entries5 t) \<subseteq> {0}"
proof -
  let ?t = "\<lparr>shape5 = (nat nl, nat b, nat h, nat c, nat d),
             data5 = replicate (nat nl) (replicate (nat b) (replicate (nat h)
                       (replicate (nat c) (replicate (nat d) 0))))\<rparr>"
  have ok: "int64_ok nl" "int64_ok b" "int64_ok h" "int64_ok c" "int64_ok d"
    using assms(1-10) by (simp_all add: int64_ok_def)
  have neg: "\<not> (nl < 0 \<or> b < 0 \<or> h < 0 \<or> c < 0 \<or> d < 0)" using assms(1-5) by simp
  have big: "\<not> (2 ^ 63 \<le> nl * b * h * c * d \<or> int mem < nl * b * h * c * d)"
    using assms(11,12) by simp
  have eq: "torch_zeros mem (nl, b, h, c, d) = Inr ?t"
    unfolding torch_zeros_def using ok neg big by (simp only: prod.case simp_thms if_True if_False)
  have wf: "wf5 ?t"
    by (simp add: wf5_def batch_ok_def heads_ok_def rows_ok_def)
  have z: "set (entries5 ?t) \<subseteq> {0}"
    by (auto simp: entries5_def set_replicate_conv_if split: if_splits)
  show ?thesis using eq wf z by (intro exI [of _ ?t]) simp
qed

lemma numel5_nat:
  assumes "0 \<le> nl" "0 \<le> b" "0 \<le> h" "0 \<le> c" "0 \<le> d"
    and "shape5 t = (nat nl, nat b, nat h, nat c, nat d)"
  shows "int (numel5 t) = nl * b * h * c * d"
  using assms by (simp add: numel5_def nat_mult_distrib)

text \<open>
  C7, as the code has it. \<open>__init__\<close> validates nothing itself. For five dimensions that
  are all at least zero and fit 64 bits, with room in memory for both buffers, it returns
  a cache whose key and value buffers have that shape and are filled with zeros, with the
  counter at \<open>0\<close>; a dimension of size zero gives empty buffers. With dimensions that fit
  64 bits and one of them negative it fails with the \<open>RuntimeError\<close> of \<open>torch.zeros\<close>,
  and with a dimension that does not fit 64 bits with its \<open>TypeError\<close>.
\<close>

theorem cache_init_zero_filled:
  "(0 \<le> nl \<and> 0 \<le> b \<and> 0 \<le> h \<and> 0 \<le> c \<and> 0 \<le> d \<and>
    nl < 2 ^ 63 \<and> b < 2 ^ 63 \<and> h < 2 ^ 63 \<and> c < 2 ^ 63 \<and> d < 2 ^ 63 \<and>
    nl * b * h * c * d < 2 ^ 63 \<and> 2 * (nl * b * h * c * d) \<le> int mem \<longrightarrow>
      (\<exists>kv. (cache_init mem (nl, b, h, c, d) :: error + ('a::zero) cache) = Inr kv \<and>
            past_seen_tokens kv = 0 \<and>
            shape5 (k_cache kv) = (nat nl, nat b, nat h, nat c, nat d) \<and>
            shape5 (v_cache kv) = (nat nl, nat b, nat h, nat c, nat d) \<and>
            wf5 (k_cache kv) \<and> wf5 (v_cache kv) \<and>
            set (entries5 (k_cache kv)) \<subseteq> {0} \<and> set (entries5 (v_cache kv)) \<subseteq> {0})) \<and>
   (int64_ok nl \<and> int64_ok b \<and> int64_ok h \<and> int64_ok c \<and> int64_ok d \<and>
    (nl < 0 \<or> b < 0 \<or> h < 0 \<or> c < 0 \<or> d < 0) \<longrightarrow>
      (cache_init mem (nl, b, h, c, d) :: error + 'a cache) = Inl RuntimeError) \<and>
   (\<not> (int64_ok nl \<and> int64_ok b \<and> int64_ok h \<and> int64_ok c \<and> int64_ok d) \<longrightarrow>
      (cache_init mem (nl, b, h, c, d) :: error + 'a cache) = Inl TypeError)"
proof (intro conjI impI)
  assume a: "0 \<le> nl \<and> 0 \<le> b \<and> 0 \<le> h \<and> 0 \<le> c \<and> 0 \<le> d \<and>
    nl < 2 ^ 63 \<and> b < 2 ^ 63 \<and> h < 2 ^ 63 \<and> c < 2 ^ 63 \<and> d < 2 ^ 63 \<and>
    nl * b * h * c * d < 2 ^ 63 \<and> 2 * (nl * b * h * c * d) \<le> int mem"
  then have nn: "0 \<le> nl" "0 \<le> b" "0 \<le> h" "0 \<le> c" "0 \<le> d"
    and lt: "nl < 2 ^ 63" "b < 2 ^ 63" "h < 2 ^ 63" "c < 2 ^ 63" "d < 2 ^ 63"
    and pr: "nl * b * h * c * d < 2 ^ 63" and two: "2 * (nl * b * h * c * d) \<le> int mem"
    by simp_all
  have p0: "0 \<le> nl * b * h * c * d" using nn by simp
  have m1: "nl * b * h * c * d \<le> int mem" using two p0 by linarith
  from torch_zeros_ok [OF nn lt pr m1]
  obtain k :: "'a tensor5" where k: "torch_zeros mem (nl, b, h, c, d) = Inr k"
    "shape5 k = (nat nl, nat b, nat h, nat c, nat d)" "wf5 k" "set (entries5 k) \<subseteq> {0}"
    by blast
  have "int (numel5 k) = nl * b * h * c * d" using nn k(2) by (rule numel5_nat)
  then have m2: "nl * b * h * c * d \<le> int (mem - numel5 k)" using two by linarith
  from torch_zeros_ok [OF nn lt pr m2]
  obtain v :: "'a tensor5" where v: "torch_zeros (mem - numel5 k) (nl, b, h, c, d) = Inr v"
    "shape5 v = (nat nl, nat b, nat h, nat c, nat d)" "wf5 v" "set (entries5 v) \<subseteq> {0}"
    by blast
  show "\<exists>kv. (cache_init mem (nl, b, h, c, d) :: error + 'a cache) = Inr kv \<and>
            past_seen_tokens kv = 0 \<and>
            shape5 (k_cache kv) = (nat nl, nat b, nat h, nat c, nat d) \<and>
            shape5 (v_cache kv) = (nat nl, nat b, nat h, nat c, nat d) \<and>
            wf5 (k_cache kv) \<and> wf5 (v_cache kv) \<and>
            set (entries5 (k_cache kv)) \<subseteq> {0} \<and> set (entries5 (v_cache kv)) \<subseteq> {0}"
    using k v by (simp add: cache_init_def)
next
  assume "int64_ok nl \<and> int64_ok b \<and> int64_ok h \<and> int64_ok c \<and> int64_ok d \<and>
    (nl < 0 \<or> b < 0 \<or> h < 0 \<or> c < 0 \<or> d < 0)"
  then have "(torch_zeros mem (nl, b, h, c, d) :: error + 'a tensor5) = Inl RuntimeError"
    unfolding torch_zeros_def by (simp only: prod.case simp_thms if_True if_False)
  then show "(cache_init mem (nl, b, h, c, d) :: error + 'a cache) = Inl RuntimeError"
    by (simp add: cache_init_def)
next
  assume "\<not> (int64_ok nl \<and> int64_ok b \<and> int64_ok h \<and> int64_ok c \<and> int64_ok d)"
  then have "(torch_zeros mem (nl, b, h, c, d) :: error + 'a tensor5) = Inl TypeError"
    unfolding torch_zeros_def by (simp only: prod.case simp_thms if_True if_False)
  then show "(cache_init mem (nl, b, h, c, d) :: error + 'a cache) = Inl TypeError"
    by (simp add: cache_init_def)
qed

theorem cache_init_zero_filled_witness:
  "(cache_init 100 (2, 1, 1, 3, 2) :: error + int cache) =
     Inr \<lparr>past_seen_tokens = 0,
          k_cache = \<lparr>shape5 = (2, 1, 1, 3, 2),
                     data5 = [[[[[0, 0], [0, 0], [0, 0]]]], [[[[0, 0], [0, 0], [0, 0]]]]]\<rparr>,
          v_cache = \<lparr>shape5 = (2, 1, 1, 3, 2),
                     data5 = [[[[[0, 0], [0, 0], [0, 0]]]], [[[[0, 0], [0, 0], [0, 0]]]]]\<rparr>\<rparr> \<and>
   (cache_init 100 (2, 1, 1, -1, 2) :: error + int cache) = Inl RuntimeError \<and>
   (cache_init 100 (2, 1, 1, 2 ^ 63, 2) :: error + int cache) = Inl TypeError"
proof -
  note t1 = cache_init_zero_filled [where ?'a = int, of 2 1 1 3 2 100]
  note t2 = cache_init_zero_filled [where ?'a = int, of 2 1 1 "-1" 2 100]
  note t3 = cache_init_zero_filled [where ?'a = int, of 2 1 1 "2 ^ 63" 2 100]
  from t1 obtain kv :: "int cache" where kv: "cache_init 100 (2, 1, 1, 3, 2) = Inr kv"
    by auto
  have "(cache_init 100 (2, 1, 1, 3, 2) :: error + int cache) =
     Inr \<lparr>past_seen_tokens = 0,
          k_cache = \<lparr>shape5 = (2, 1, 1, 3, 2),
                     data5 = [[[[[0, 0], [0, 0], [0, 0]]]], [[[[0, 0], [0, 0], [0, 0]]]]]\<rparr>,
          v_cache = \<lparr>shape5 = (2, 1, 1, 3, 2),
                     data5 = [[[[[0, 0], [0, 0], [0, 0]]]], [[[[0, 0], [0, 0], [0, 0]]]]]\<rparr>\<rparr>"
    using kv by code_simp
  moreover have "(cache_init 100 (2, 1, 1, -1, 2) :: error + int cache) = Inl RuntimeError"
    using t2 by (simp add: int64_ok_def)
  moreover have "(cache_init 100 (2, 1, 1, 2 ^ 63, 2) :: error + int cache) = Inl TypeError"
    using t3 by (simp add: int64_ok_def)
  ultimately show ?thesis by simp
qed

text \<open>
  C7 as stated fails: a shape with zero key/value heads is accepted.
\<close>

theorem cache_init_zero_dimension_counterexample:
  "(cache_init 100 (2, 1, 0, 4, 8) :: error + int cache) =
     Inr \<lparr>past_seen_tokens = 0,
          k_cache = \<lparr>shape5 = (2, 1, 0, 4, 8), data5 = [[[]], [[]]]\<rparr>,
          v_cache = \<lparr>shape5 = (2, 1, 0, 4, 8), data5 = [[[]], [[]]]\<rparr>\<rparr>"
  by code_simp

section \<open>Properties of the driver\<close>

lemma argmax_scan_first_max:
  "length pre = i \<Longrightarrow> mi < i \<Longrightarrow> pre ! mi = mv \<Longrightarrow>
   (\<forall>j < i. pre ! j \<le> mv) \<Longrightarrow> (\<forall>j < mi. pre ! j < mv) \<Longrightarrow>
   argmax_scan (map Num xs) i mv mi < length (pre @ xs) \<and>
   (\<forall>j < length (pre @ xs). (pre @ xs) ! j \<le> (pre @ xs) ! argmax_scan (map Num xs) i mv mi) \<and>
   (\<forall>j < argmax_scan (map Num xs) i mv mi.
      (pre @ xs) ! j < (pre @ xs) ! argmax_scan (map Num xs) i mv mi)"
proof (induction xs arbitrary: pre i mv mi)
  case Nil
  then show ?case by simp
next
  case (Cons x xs)
  let ?pre = "pre @ [x]"
  have len: "length ?pre = Suc i" using Cons.prems by simp
  show ?case
  proof (cases "mv < x")
    case True
    have a: "i < Suc i" by simp
    have b: "?pre ! i = x" using Cons.prems(1) by (simp add: nth_append)
    have c: "\<forall>j < Suc i. ?pre ! j \<le> x"
      using Cons.prems True by (auto simp: nth_append less_Suc_eq intro: order.trans less_imp_le)
    have d: "\<forall>j < i. ?pre ! j < x"
      using Cons.prems True by (auto simp: nth_append intro: le_less_trans)
    from Cons.IH [OF len a b c d] True show ?thesis by simp
  next
    case False
    have a: "mi < Suc i" using Cons.prems by simp
    have b: "?pre ! mi = mv" using Cons.prems by (simp add: nth_append)
    have c: "\<forall>j < Suc i. ?pre ! j \<le> mv"
      using Cons.prems False by (auto simp: nth_append less_Suc_eq)
    have d: "\<forall>j < mi. ?pre ! j < mv"
      using Cons.prems by (auto simp: nth_append)
    from Cons.IH [OF len a b c d] False show ?thesis by simp
  qed
qed

lemma np_argmax_first_max:
  assumes "xs \<noteq> []"
  shows "\<exists>i. np_argmax (map Num xs) = Inr i \<and> i < length xs \<and> (\<forall>j < length xs. xs ! j \<le> xs ! i) \<and>
             (\<forall>j < i. xs ! j < xs ! i)"
proof -
  obtain x ys where v: "xs = x # ys" using assms by (cases xs) auto
  have "argmax_scan (map Num ys) 1 x 0 < length ([x] @ ys) \<and>
   (\<forall>j < length ([x] @ ys). ([x] @ ys) ! j \<le> ([x] @ ys) ! argmax_scan (map Num ys) 1 x 0) \<and>
   (\<forall>j < argmax_scan (map Num ys) 1 x 0.
      ([x] @ ys) ! j < ([x] @ ys) ! argmax_scan (map Num ys) 1 x 0)"
    by (rule argmax_scan_first_max) auto
  then show ?thesis by (simp add: v np_argmax_def)
qed

lemma argmax_scan_first_nan:
  "NaN \<in> set v \<Longrightarrow>
   \<exists>k < length v. argmax_scan v i mv mi = i + k \<and> v ! k = NaN \<and> (\<forall>j < k. v ! j \<noteq> NaN)"
proof (induction v arbitrary: i mv mi)
  case Nil
  then show ?case by simp
next
  case (Cons x v)
  show ?case
  proof (cases x)
    case NaN
    then show ?thesis by (intro exI [of _ 0]) simp
  next
    case (Num y)
    then have "NaN \<in> set v" using Cons.prems by simp
    from Cons.IH [OF this] have
      "\<exists>k < length v. argmax_scan v (Suc i) mv' mi' = Suc i + k \<and> v ! k = NaN \<and> (\<forall>j < k. v ! j \<noteq> NaN)"
      for mv' mi' by blast
    then obtain k where k: "k < length v" "argmax_scan (x # v) i mv mi = Suc i + k" "v ! k = NaN"
      "\<forall>j < k. v ! j \<noteq> NaN"
      using Num by (cases "mv < y") (simp_all, blast+)
    have "\<forall>j < Suc k. (x # v) ! j \<noteq> NaN"
      using k(4) Num by (auto simp: nth_Cons split: nat.splits)
    then show ?thesis using k by (intro exI [of _ "Suc k"]) simp
  qed
qed

lemma np_argmax_first_nan:
  assumes "NaN \<in> set v"
  shows "\<exists>k < length v. np_argmax v = Inr k \<and> v ! k = NaN \<and> (\<forall>j < k. v ! j \<noteq> NaN)"
proof (cases v)
  case Nil
  then show ?thesis using assms by simp
next
  case (Cons x w)
  show ?thesis
  proof (cases x)
    case NaN
    then show ?thesis using Cons by (intro exI [of _ 0]) (simp add: np_argmax_def)
  next
    case (Num y)
    then have "NaN \<in> set w" using assms Cons by simp
    from argmax_scan_first_nan [OF this, of 1 y 0] obtain k where
      k: "k < length w" "argmax_scan w 1 y 0 = 1 + k" "w ! k = NaN" "\<forall>j < k. w ! j \<noteq> NaN" by blast
    have "\<forall>j < Suc k. (x # w) ! j \<noteq> NaN"
      using k(4) Num by (auto simp: nth_Cons split: nat.splits)
    then show ?thesis using k Cons Num by (intro exI [of _ "Suc k"]) (simp add: np_argmax_def)
  qed
qed

text \<open>
  C8, as the code has it. For logits with at least one sequence, one position and one
  score: when the score vector of the last position holds no NaN, \<open>sample\<close> returns an
  index whose score is the largest, and every earlier index has a strictly smaller score,
  so ties go to the lowest index; when it holds a NaN, \<open>sample\<close> returns the index of its
  first NaN.
\<close>

theorem sample_greedy_lowest_index:
  assumes "logits = first # others" and "first \<noteq> []" and "last first \<noteq> []"
  shows "(\<forall>xs. last first = map Num xs \<longrightarrow>
           (\<exists>i. sample logits = Inr (int i) \<and> i < length xs \<and>
                (\<forall>j < length xs. xs ! j \<le> xs ! i) \<and> (\<forall>j < i. xs ! j < xs ! i))) \<and>
         (NaN \<in> set (last first) \<longrightarrow>
           (\<exists>i < length (last first). sample logits = Inr (int i) \<and> last first ! i = NaN \<and>
                (\<forall>j < i. last first ! j \<noteq> NaN)))"
proof (intro conjI allI impI)
  fix xs assume v: "last first = map Num xs"
  then have "xs \<noteq> []" using assms(3) by auto
  from np_argmax_first_max [OF this] obtain i where
    i: "np_argmax (map Num xs) = Inr i" "i < length xs"
       "\<forall>j < length xs. xs ! j \<le> xs ! i" "\<forall>j < i. xs ! j < xs ! i" by blast
  have "sample logits = Inr (int i)" using assms v i(1) by (simp add: sample_def)
  with i show "\<exists>i. sample logits = Inr (int i) \<and> i < length xs \<and>
                (\<forall>j < length xs. xs ! j \<le> xs ! i) \<and> (\<forall>j < i. xs ! j < xs ! i)" by blast
next
  assume "NaN \<in> set (last first)"
  from np_argmax_first_nan [OF this] obtain k where
    k: "k < length (last first)" "np_argmax (last first) = Inr k" "last first ! k = NaN"
       "\<forall>j < k. last first ! j \<noteq> NaN" by blast
  have "sample logits = Inr (int k)" using assms k(2) by (simp add: sample_def)
  with k show "\<exists>i < length (last first). sample logits = Inr (int i) \<and> last first ! i = NaN \<and>
                (\<forall>j < i. last first ! j \<noteq> NaN)" by blast
qed

theorem sample_greedy_lowest_index_witness:
  "[[Num (1::int), Num 5, Num 3], [Num 2, Num 7, Num 7, Num 1]] \<noteq> [] \<and>
   last [[Num (1::int), Num 5, Num 3], [Num 2, Num 7, Num 7, Num 1]] = map Num [2, 7, 7, 1] \<and>
   sample [[[Num (1::int), Num 5, Num 3], [Num 2, Num 7, Num 7, Num 1]]] = Inr 1"
proof -
  let ?first = "[[Num (1::int), Num 5, Num 3], [Num 2, Num 7, Num 7, Num 1]]"
  have h: "[?first] = ?first # []" "?first \<noteq> []" "last ?first \<noteq> []" by simp_all
  have v: "last ?first = map Num [2, 7, 7, 1]" by simp
  from sample_greedy_lowest_index [OF h] v obtain i where
    i: "sample [?first] = Inr (int i)" "i < length [2::int, 7, 7, 1]"
       "\<forall>j < length [2::int, 7, 7, 1]. [2::int, 7, 7, 1] ! j \<le> [2, 7, 7, 1] ! i"
       "\<forall>j < i. [2::int, 7, 7, 1] ! j < [2, 7, 7, 1] ! i" by blast
  have "sample [?first] = Inr 1" by (simp add: sample_def np_argmax_def)
  then show ?thesis using h(2) v i(1) by simp
qed

text \<open>
  C8 as stated fails on a score vector with a NaN: the index returned is that of the NaN,
  while the largest score stands at index \<open>2\<close>.
\<close>

theorem sample_nan_counterexample:
  "sample [[[Num (1::int), NaN, Num 3]]] = Inr 1 \<and> [Num (1::int), NaN, Num 3] ! 2 = Num 3"
  by (simp add: sample_def np_argmax_def)

lemma map_enumerate_replicate:
  "map (\<lambda>(i, x). f i x) (enumerate 0 (replicate n v)) = map (\<lambda>i. f i v) [0 ..< n]"
  by (rule nth_equalityI) (simp_all add: nth_enumerate_eq)

lemma causal_mask_data:
  "data4 (causal_mask input_ids p) =
     [[map (\<lambda>i. map (\<lambda>j. if p = 0 \<and> i < j then NegInf else Fin 0) [0 ..< p + length input_ids])
         [0 ..< length input_ids]]]"
proof -
  have "triu_matrix 1 (replicate n (replicate w x)) =
          map (\<lambda>i. map (\<lambda>j. if i < j then x else Fin 0) [0 ..< w]) [0 ..< n]" for n w x
    unfolding triu_matrix_def map_enumerate_replicate
    by (rule nth_equalityI) (auto simp: nth_enumerate_eq intro!: nth_equalityI)
  then show ?thesis
    by (auto simp: causal_mask_def np_triu_def np_full_def)
qed

lemma causal_mask_shape:
  "shape4 (causal_mask input_ids p) = (1, 1, length input_ids, p + length input_ids)"
  by (simp add: causal_mask_def np_triu_def np_full_def)

lemma causal_mask_entry:
  assumes "i < length input_ids" and "j < p + length input_ids"
  shows "data4 (causal_mask input_ids p) ! 0 ! 0 ! i ! j = (if p = 0 \<and> i < j then NegInf else Fin 0)"
  using assms by (simp add: causal_mask_data)

text \<open>
  C2, as the code has it. For \<open>num_past = 0\<close> (the prompt) or a chunk of at most one token
  (every later step of the driver), the mask has shape
  \<open>(1, 1, newTokenCount, num_past + newTokenCount)\<close>, the entry at row \<open>i\<close> and column
  \<open>j\<close> is \<open>0\<close> exactly when \<open>j \<le> num_past + i\<close>, and it is minus infinity when
  \<open>j > num_past + i\<close>. For \<open>num_past > 0\<close> every entry is \<open>0\<close>.
\<close>

theorem causal_mask_seed_or_single:
  assumes "p = 0 \<or> length input_ids \<le> 1"
  shows "shape4 (causal_mask input_ids p) = (1, 1, length input_ids, p + length input_ids) \<and>
         (\<forall>i < length input_ids. \<forall>j < p + length input_ids.
            (data4 (causal_mask input_ids p) ! 0 ! 0 ! i ! j = Fin 0 \<longleftrightarrow> j \<le> p + i) \<and>
            (p + i < j \<longrightarrow> data4 (causal_mask input_ids p) ! 0 ! 0 ! i ! j = NegInf)) \<and>
         (0 < p \<longrightarrow> (\<forall>i < length input_ids. \<forall>j < p + length input_ids.
            data4 (causal_mask input_ids p) ! 0 ! 0 ! i ! j = Fin 0))"
  using assms by (auto simp: causal_mask_shape causal_mask_entry)

theorem causal_mask_seed_or_single_witness:
  "((0::nat) = 0 \<or> length [5::int, 8, 2] \<le> 1) \<and>
   causal_mask [5, 8, 2] 0 =
     \<lparr>shape4 = (1, 1, 3, 3),
      data4 = [[[[Fin 0, NegInf, NegInf], [Fin 0, Fin 0, NegInf], [Fin 0, Fin 0, Fin 0]]]]\<rparr> \<and>
   (data4 (causal_mask [5, 8, 2] 0) ! 0 ! 0 ! 1 ! 1 = Fin 0 \<longleftrightarrow> (1::nat) \<le> 0 + 1) \<and>
   data4 (causal_mask [5, 8, 2] 0) ! 0 ! 0 ! 1 ! 2 = NegInf"
  using causal_mask_seed_or_single [of 0 "[5, 8, 2]"]
  by (simp add: causal_mask_def np_triu_def np_full_def triu_matrix_def enumerate_eq_zip upt_rec numeral_3_eq_3)

text \<open>
  C2 as stated fails for a chunk of two tokens after one past token: row \<open>0\<close>, column
  \<open>2\<close> lies beyond \<open>num_past + 0 = 1\<close> and is still \<open>0\<close>.
\<close>

theorem causal_mask_later_chunk_counterexample:
  "shape4 (causal_mask [5, 8] 1) = (1, 1, 2, 3) \<and>
   data4 (causal_mask [5, 8] 1) ! 0 ! 0 ! 0 ! 2 = Fin 0 \<and> (1::nat) + 0 < 2"
  by (simp add: causal_mask_shape causal_mask_entry)

text \<open>
  C9. The mask handed to \<open>model.predict\<close> is determined by the number of past tokens and
  the number of new tokens alone: for two inputs of the same length there is one mask that
  \<open>inference\<close> passes on whatever the token ids, the model and the state of the cache
  are, and \<open>inference\<close> does nothing to the state but pass it to \<open>predict\<close>.
\<close>

theorem causal_mask_depends_on_counts_only:
  assumes "length ids1 = length ids2"
  shows "\<exists>m. shape4 m = (1, 1, length ids1, p + length ids1) \<and>
           (\<forall>(predict :: int list \<Rightarrow> fp tensor4 \<Rightarrow> 'st \<Rightarrow> 'l list list list \<times> 'st) st1 st2.
              inference predict st1 ids1 p = predict ids1 m st1 \<and>
              inference predict st2 ids2 p = predict ids2 m st2)"
proof -
  have "causal_mask ids1 p = causal_mask ids2 p"
    using assms by (simp add: causal_mask_def)
  then show ?thesis
    using assms by (intro exI [of _ "causal_mask ids1 p"]) (simp add: inference_def causal_mask_shape)
qed

theorem causal_mask_depends_on_counts_only_witness:
  "length [5::int, 8] = length [1::int, 2] \<and>
   snd (inference (\<lambda>ids m st. ([[[0::int]]], m # st)) [] [5, 8] 0) =
   snd (inference (\<lambda>ids m st. ([[[0::int]]], m # st)) [] [1, 2] 0)"
proof -
  have h: "length [5::int, 8] = length [1::int, 2]" by simp
  from causal_mask_depends_on_counts_only
         [where ?'st = "fp tensor4 list" and ?'l = int, OF h, of 0]
  obtain m where
    m: "\<forall>(predict :: int list \<Rightarrow> fp tensor4 \<Rightarrow> fp tensor4 list \<Rightarrow> int list list list \<times> fp tensor4 list)
          st1 st2.
              inference predict st1 [5, 8] 0 = predict [5, 8] m st1 \<and>
              inference predict st2 [1, 2] 0 = predict [1, 2] m st2" by blast
  have "inference (\<lambda>ids m st. ([[[0::int]]], m # st)) [] [5, 8] 0 = ([[[0::int]]], [m])"
    using m by simp
  moreover have "inference (\<lambda>ids m st. ([[[0::int]]], m # st)) [] [1, 2] 0 = ([[[0::int]]], [m])"
    using m by simp
  ultimately show ?thesis using h by simp
qed

lemma generate_loop_from:
  assumes "i \<le> m"
  shows "\<exists>r k. generate_loop predict eos (int m) i (generator_at predict st prompt i) acc = Some r \<and>
     i \<le> k \<and> k \<le> m \<and>
     (\<forall>j. i \<le> j \<and> j < k \<longrightarrow> (\<exists>g. generator_at predict st prompt j = Inr g \<and> token g \<noteq> eos)) \<and>
     (case generator_at predict st prompt k of
        Inl e \<Rightarrow> r = Inl e
      | Inr g \<Rightarrow> (token g = eos \<or> k = m) \<and>
                 r = Inr (acc @ map (token_at predict st prompt) [i ..< k]))"
  using assms
proof (induction "m - i" arbitrary: i acc)
  case 0
  then have im: "i = m" by simp
  show ?case
  proof (cases "generator_at predict st prompt i")
    case (Inl e)
    then show ?thesis using im
      by (intro exI [of _ "Inl e"] exI [of _ i]) (simp add: generate_loop.simps)
  next
    case (Inr g)
    then show ?thesis using im
      by (intro exI [of _ "Inr acc"] exI [of _ i]) (simp add: generate_loop.simps [of _ _ _ _ "Inr g"])
  qed
next
  case (Suc n)
  then have lt: "i < m" and n: "n = m - Suc i" and le: "Suc i \<le> m" by simp_all
  show ?case
  proof (cases "generator_at predict st prompt i")
    case (Inl e)
    then show ?thesis using lt
      by (intro exI [of _ "Inl e"] exI [of _ i]) (simp add: generate_loop.simps)
  next
    case (Inr g)
    show ?thesis
    proof (cases "token g = eos")
      case True
      then show ?thesis using Inr lt
        by (intro exI [of _ "Inr acc"] exI [of _ i]) (simp add: generate_loop.simps [of _ _ _ _ "Inr g"])
    next
      case False
      have step: "generate_loop predict eos (int m) i (generator_at predict st prompt i) acc =
            generate_loop predict eos (int m) (Suc i) (generator_at predict st prompt (Suc i))
              (acc @ [token g])"
        using Inr False lt by (subst generate_loop.simps) simp
      have tok: "token_at predict st prompt i = token g" using Inr by (simp add: token_at_def)
      from Suc.hyps(1) [OF n le, of "acc @ [token g]"] obtain r k where
        r: "generate_loop predict eos (int m) (Suc i) (generator_at predict st prompt (Suc i))
              (acc @ [token g]) = Some r"
        and k: "Suc i \<le> k" "k \<le> m"
        and before: "\<forall>j. Suc i \<le> j \<and> j < k \<longrightarrow>
               (\<exists>g. generator_at predict st prompt j = Inr g \<and> token g \<noteq> eos)"
        and at: "(case generator_at predict st prompt k of
            Inl e \<Rightarrow> r = Inl e
          | Inr g' \<Rightarrow> (token g' = eos \<or> k = m) \<and>
                 r = Inr ((acc @ [token g]) @ map (token_at predict st prompt) [Suc i ..< k]))"
        by blast
      have all: "\<forall>j. i \<le> j \<and> j < k \<longrightarrow>
               (\<exists>g. generator_at predict st prompt j = Inr g \<and> token g \<noteq> eos)"
      proof (intro allI impI)
        fix j assume j: "i \<le> j \<and> j < k"
        show "\<exists>g. generator_at predict st prompt j = Inr g \<and> token g \<noteq> eos"
        proof (cases "j = i")
          case True
          then show ?thesis using Inr False by simp
        next
          case False
          then have "Suc i \<le> j \<and> j < k" using j by simp
          then show ?thesis using before by blast
        qed
      qed
      have "[i ..< k] = i # [Suc i ..< k]" using k(1) by (simp add: upt_conv_Cons)
      then have l: "(acc @ [token g]) @ map (token_at predict st prompt) [Suc i ..< k] =
            acc @ map (token_at predict st prompt) [i ..< k]"
        using tok by simp
      have "(case generator_at predict st prompt k of
            Inl e \<Rightarrow> r = Inl e
          | Inr g' \<Rightarrow> (token g' = eos \<or> k = m) \<and>
                 r = Inr (acc @ map (token_at predict st prompt) [i ..< k]))"
        using at unfolding l .
      then show ?thesis using step r k all
        by (intro exI [of _ r] exI [of _ k]) simp
    qed
  qed
qed

text \<open>
  C6, as the code has it. For a limit \<open>max_new_tokens \<ge> 0\<close> the loop of \<open>generate\<close> ends,
  at the first index \<open>k \<le> max_new_tokens\<close> at which the generator raises, yields the stop
  token or has yielded \<open>max_new_tokens\<close> tokens before. Unless the generator raised,
  \<open>extend_tokens\<close> is the list of the \<open>k\<close> tokens yielded before, in order, none of them the
  stop token: it has at most \<open>max_new_tokens\<close> elements, the stop token that ends the loop
  is left out, and at the limit all \<open>max_new_tokens\<close> tokens are in.
\<close>

theorem generate_stops_at_limit_or_stop_token:
  assumes "0 \<le> max_new_tokens"
  shows "\<exists>r k. extend_tokens_of predict st eos prompt max_new_tokens = Some r \<and>
     k \<le> nat max_new_tokens \<and>
     (\<forall>j < k. \<exists>g. generator_at predict st (astype_int32 prompt) j = Inr g \<and> token g \<noteq> eos) \<and>
     (case generator_at predict st (astype_int32 prompt) k of
        Inl e \<Rightarrow> r = Inl e
      | Inr g \<Rightarrow> (token g = eos \<or> k = nat max_new_tokens) \<and>
                 r = Inr (map (token_at predict st (astype_int32 prompt)) [0 ..< k]))"
proof -
  have m: "int (nat max_new_tokens) = max_new_tokens" using assms by simp
  from generate_loop_from [of 0 "nat max_new_tokens" predict eos st "astype_int32 prompt" "[]"]
  obtain r k where
    r: "generate_loop predict eos max_new_tokens 0
          (generator_at predict st (astype_int32 prompt) 0) [] = Some r"
    and k: "k \<le> nat max_new_tokens"
    and before: "\<forall>j. 0 \<le> j \<and> j < k \<longrightarrow>
       (\<exists>g. generator_at predict st (astype_int32 prompt) j = Inr g \<and> token g \<noteq> eos)"
    and at: "(case generator_at predict st (astype_int32 prompt) k of
        Inl e \<Rightarrow> r = Inl e
      | Inr g \<Rightarrow> (token g = eos \<or> k = nat max_new_tokens) \<and>
                 r = Inr ([] @ map (token_at predict st (astype_int32 prompt)) [0 ..< k]))"
    unfolding m by blast
  have "extend_tokens_of predict st eos prompt max_new_tokens = Some r"
    using r by (simp add: extend_tokens_of_def)
  then show ?thesis using k before at [unfolded append_Nil]
    by (intro exI [of _ r] exI [of _ k]) simp
qed

theorem generate_stops_at_limit_or_stop_token_witness:
  "(0::int) \<le> 2 \<and>
   extend_tokens_of (\<lambda>ids m st. ([[[Num (0::int), Num 1, Num 0]]], st)) () 0 [5, 8, 2] 2 =
     Some (Inr [1, 1])"
proof -
  have h: "(0::int) \<le> 2" by simp
  from generate_stops_at_limit_or_stop_token
         [OF h, of "\<lambda>ids m st. ([[[Num (0::int), Num 1, Num 0]]], st)" "()" 0 "[5, 8, 2]"]
  obtain r where
    r: "extend_tokens_of (\<lambda>ids m st. ([[[Num (0::int), Num 1, Num 0]]], st)) () 0 [5, 8, 2] 2 = Some r"
    by blast
  have "extend_tokens_of (\<lambda>ids m st. ([[[Num (0::int), Num 1, Num 0]]], st)) () 0 [5, 8, 2] 2 =
     Some (Inr [1, 1])"
    by (simp add: extend_tokens_of_def astype_int32_def generator_start_def generator_resume_def
          inference_def sample_def np_argmax_def generate_loop.simps [of _ _ _ _ "Inr g" for g])
  then show ?thesis using h r by simp
qed

text \<open>
  C6 as stated fails for a negative limit, which the command line accepts: the test
  \<open>i == max_new_tokens\<close> never holds, and with a model that yields token \<open>1\<close> three times
  and then the stop token \<open>0\<close> the output has three elements, more than \<open>-1\<close>.
\<close>

theorem generate_negative_limit_counterexample:
  "extend_tokens_of
     (\<lambda>ids m st. ([[[Num (if st < 3 then 0 else 1::int), Num (if st < 3 then 1 else 0)]]], Suc st))
     0 0 [5, 8, 2] (- 1) = Some (Inr [1, 1, 1]) \<and>
   \<not> int (length [1::int, 1, 1]) \<le> - 1"
  by (simp add: extend_tokens_of_def astype_int32_def generator_start_def generator_resume_def
        inference_def sample_def np_argmax_def generate_loop.simps [of _ _ _ _ "Inr g" for g])

section \<open>The attention step and the forward pass\<close>

lemma map_eq_nth: "map f xs = map f ys \<Longrightarrow> i < length xs \<Longrightarrow> f (xs ! i) = f (ys ! i)"
  by (metis length_map nth_map)

lemma write_heads_nth:
  assumes "hv \<le> length dst" and "i < length dst"
  shows "write_heads hv start len d dst src ! i =
           (if i < hv then write_positions start len d (dst ! i) (expand hv src ! i) else dst ! i)"
  using assms by (simp add: write_heads_def nth_append)

lemma write_batch_nth:
  assumes "length dst = b" and "i < b"
  shows "write_batch b hv start len d dst src ! i =
           write_heads hv start len d (dst ! i) (expand b src ! i)"
  using assms by (simp add: write_batch_def)

lemma write_positions_prefix:
  assumes "length dst1 = c" and "length dst2 = c" and "take e dst1 = take e dst2"
    and "stop \<le> e" and "stop \<le> c" and "start \<le> c"
  shows "take stop (write_positions start (stop - start) d dst1 src) =
         take stop (write_positions start (stop - start) d dst2 src)"
proof (cases "start \<le> stop")
  case True
  have pre: "take start dst1 = take start dst2"
  proof -
    have "take start (take e dst1) = take start (take e dst2)" using assms(3) by simp
    then show ?thesis using True assms(4) by (simp add: min_def)
  qed
  have "take stop (write_positions start (stop - start) d dst src) =
          take start dst @ map (expand d) (expand (stop - start) src)"
    if "length dst = c" for dst :: "'a list list"
  proof -
    have "length (take start dst @ map (expand d) (expand (stop - start) src)) = stop"
      using that True assms(6) by simp
    then show ?thesis unfolding write_positions_def
      by (metis append.assoc append_eq_conv_conj)
  qed
  then show ?thesis using assms(1,2) pre by simp
next
  case False
  then have "stop - start = 0" by simp
  moreover have "take stop dst1 = take stop dst2"
  proof -
    have "take stop (take e dst1) = take stop (take e dst2)" using assms(3) by simp
    then show ?thesis using assms(4) by (simp add: min_def)
  qed
  ultimately show ?thesis by (simp add: write_positions_empty)
qed

lemma write_heads_prefix:
  assumes "heads_ok h c d dst1" and "heads_ok h c d dst2"
    and "map (take e) dst1 = map (take e) dst2"
    and "stop \<le> e" and "stop \<le> c" and "start \<le> c" and "hv \<le> h"
  shows "map (take stop) (write_heads hv start (stop - start) d dst1 src) =
         map (take stop) (write_heads hv start (stop - start) d dst2 src)"
proof (rule nth_equalityI)
  have l: "length dst1 = h" "length dst2 = h" using assms(1,2) by (simp_all add: heads_ok_def)
  show "length (map (take stop) (write_heads hv start (stop - start) d dst1 src)) =
        length (map (take stop) (write_heads hv start (stop - start) d dst2 src))"
    using l assms(7) by (simp add: length_write_heads)
  fix i assume "i < length (map (take stop) (write_heads hv start (stop - start) d dst1 src))"
  then have i: "i < h" using l assms(7) by (simp add: length_write_heads)
  have r1: "rows_ok c d (dst1 ! i)" using assms(1) i by (rule heads_ok_nth)
  have r2: "rows_ok c d (dst2 ! i)" using assms(2) i by (rule heads_ok_nth)
  have t: "take e (dst1 ! i) = take e (dst2 ! i)"
    using map_eq_nth [OF assms(3)] i l by simp
  have ts: "take stop (dst1 ! i) = take stop (dst2 ! i)"
  proof -
    have "take stop (take e (dst1 ! i)) = take stop (take e (dst2 ! i))" using t by simp
    then show ?thesis using assms(4) by (simp add: min_def)
  qed
  have "take stop (write_heads hv start (stop - start) d dst1 src ! i) =
        take stop (write_heads hv start (stop - start) d dst2 src ! i)"
  proof (cases "i < hv")
    case True
    have "take stop (write_positions start (stop - start) d (dst1 ! i) (expand hv src ! i)) =
          take stop (write_positions start (stop - start) d (dst2 ! i) (expand hv src ! i))"
      using r1 r2 t assms(4,5,6) by (intro write_positions_prefix [where c = c and e = e])
        (simp_all add: rows_ok_def)
    then show ?thesis using True l i assms(7) by (simp add: write_heads_nth)
  next
    case False
    then show ?thesis using ts l i assms(7) by (simp add: write_heads_nth)
  qed
  then show "map (take stop) (write_heads hv start (stop - start) d dst1 src) ! i =
             map (take stop) (write_heads hv start (stop - start) d dst2 src) ! i"
    using i l assms(7) by (simp add: length_write_heads)
qed

lemma write_batch_prefix:
  assumes "batch_ok b h c d dst1" and "batch_ok b h c d dst2"
    and "map (map (take e)) dst1 = map (map (take e)) dst2"
    and "stop \<le> e" and "stop \<le> c" and "start \<le> c" and "hv \<le> h"
  shows "map (map (take stop)) (write_batch b hv start (stop - start) d dst1 src) =
         map (map (take stop)) (write_batch b hv start (stop - start) d dst2 src)"
proof (rule nth_equalityI)
  have l: "length dst1 = b" "length dst2 = b" using assms(1,2) by (simp_all add: batch_ok_def)
  have lw: "length (write_batch b hv start (stop - start) d dst src) = b"
    if "length dst = b" for dst :: "'a list list list list"
    using that by (simp add: write_batch_def)
  show "length (map (map (take stop)) (write_batch b hv start (stop - start) d dst1 src)) =
        length (map (map (take stop)) (write_batch b hv start (stop - start) d dst2 src))"
    using l by (simp add: lw)
  fix i assume "i < length (map (map (take stop)) (write_batch b hv start (stop - start) d dst1 src))"
  then have i: "i < b" using l by (simp add: lw)
  have h1: "heads_ok h c d (dst1 ! i)" using assms(1) i by (rule batch_ok_nth)
  have h2: "heads_ok h c d (dst2 ! i)" using assms(2) i by (rule batch_ok_nth)
  have t: "map (take e) (dst1 ! i) = map (take e) (dst2 ! i)"
    using map_eq_nth [OF assms(3)] i l by simp
  have "map (take stop) (write_heads hv start (stop - start) d (dst1 ! i) (expand b src ! i)) =
        map (take stop) (write_heads hv start (stop - start) d (dst2 ! i) (expand b src ! i))"
    using h1 h2 t assms(4-7) by (rule write_heads_prefix)
  then show "map (map (take stop)) (write_batch b hv start (stop - start) d dst1 src) ! i =
             map (map (take stop)) (write_batch b hv start (stop - start) d dst2 src) ! i"
    using i l by (simp add: lw write_batch_nth)
qed

lemma prefix5_layer:
  assumes "prefix5 e t1 = prefix5 e t2" and "l < length (data5 t1)"
  shows "map (map (take e)) (data5 t1 ! l) = map (map (take e)) (data5 t2 ! l)"
  using map_eq_nth [OF assms(1) [unfolded prefix5_def] assms(2)] .

lemma setitem_then_getitem_prefix:
  assumes wf: "wf5 t1" "wf5 t2" and sh: "shape5 t1 = shape5 t2"
    and pre: "prefix5 e t1 = prefix5 e t2"
  shows "(\<exists>err. setitem t1 lidx i (int e) src = Inl err \<and> setitem t2 lidx i (int e) src = Inl err) \<or>
         (\<exists>t1' t2'. setitem t1 lidx i (int e) src = Inr t1' \<and> setitem t2 lidx i (int e) src = Inr t2' \<and>
            getitem t1' lidx (int e) = getitem t2' lidx (int e))"
proof -
  obtain nl b h c d where s1: "shape5 t1 = (nl, b, h, c, d)" by (cases "shape5 t1")
  then have s2: "shape5 t2 = (nl, b, h, c, d)" using sh by simp
  obtain bs hs qs ds where s4: "shape4 src = (bs, hs, qs, ds)" by (cases "shape4 src")
  show ?thesis
  proof (cases "index_axis nl lidx")
    case None
    then show ?thesis using s1 s2 s4 by (simp add: setitem_def)
  next
    case (Some l)
    let ?start = "slice_bound c i" and ?stop = "slice_bound c (int e)"
    let ?hv = "min hs h"
    show ?thesis
    proof (cases "expandable bs b \<and> expandable hs ?hv \<and> expandable qs (?stop - ?start) \<and> expandable ds d")
      case False
      then have "setitem t1 lidx i (int e) src = Inl RuntimeError"
        "setitem t2 lidx i (int e) src = Inl RuntimeError"
        using s1 s2 s4 Some by (auto simp: setitem_def Let_def)
      then show ?thesis by simp
    next
      case True
      let ?n1 = "write_batch b ?hv ?start (?stop - ?start) d (data5 t1 ! l) (data4 src)"
      let ?n2 = "write_batch b ?hv ?start (?stop - ?start) d (data5 t2 ! l) (data4 src)"
      let ?t1 = "t1\<lparr>data5 := (data5 t1)[l := ?n1]\<rparr>"
      let ?t2 = "t2\<lparr>data5 := (data5 t2)[l := ?n2]\<rparr>"
      have e1: "setitem t1 lidx i (int e) src = Inr ?t1" and e2: "setitem t2 lidx i (int e) src = Inr ?t2"
        using s1 s2 s4 Some True by (simp_all add: setitem_def Let_def)
      have ln: "l < nl" using Some by (rule index_axis_less)
      have ll: "l < length (data5 t1)" "l < length (data5 t2)"
        using wf s1 s2 ln by (simp_all add: wf5_def)
      have stop: "?stop \<le> e" by (simp add: slice_bound_def)
      have "map (map (take ?stop)) ?n1 = map (map (take ?stop)) ?n2"
        using wf5_layer [OF wf(1) s1 ln] wf5_layer [OF wf(2) s2 ln]
          prefix5_layer [OF pre ll(1)] stop
        by (rule write_batch_prefix) simp_all
      then have "getitem ?t1 lidx (int e) = getitem ?t2 lidx (int e)"
        using s1 s2 Some ll by (simp add: getitem_def)
      then show ?thesis using e1 e2 by simp
    qed
  qed
qed

lemma update_prefix_only:
  assumes "wf5 (k_cache kv1)" "wf5 (k_cache kv2)" "shape5 (k_cache kv1) = shape5 (k_cache kv2)"
    and "wf5 (v_cache kv1)" "wf5 (v_cache kv2)" "shape5 (v_cache kv1) = shape5 (v_cache kv2)"
    and "prefix5 e (k_cache kv1) = prefix5 e (k_cache kv2)"
    and "prefix5 e (v_cache kv1) = prefix5 e (v_cache kv2)"
  shows "fst (update kv1 k v lidx [i, int e]) = fst (update kv2 k v lidx [i, int e])"
proof -
  from setitem_then_getitem_prefix [OF assms(1,2,3,7), of lidx i k]
  consider (kerr) err where "setitem (k_cache kv1) lidx i (int e) k = Inl err"
      "setitem (k_cache kv2) lidx i (int e) k = Inl err"
    | (kok) k1 k2 where "setitem (k_cache kv1) lidx i (int e) k = Inr k1"
      "setitem (k_cache kv2) lidx i (int e) k = Inr k2"
      "getitem k1 lidx (int e) = getitem k2 lidx (int e)" by blast
  then show ?thesis
  proof cases
    case kerr
    then show ?thesis by (simp add: update_def)
  next
    case kok
    from setitem_then_getitem_prefix [OF assms(4,5,6,8), of lidx i v]
    consider (verr) err where "setitem (v_cache kv1) lidx i (int e) v = Inl err"
        "setitem (v_cache kv2) lidx i (int e) v = Inl err"
      | (vok) v1 v2 where "setitem (v_cache kv1) lidx i (int e) v = Inr v1"
        "setitem (v_cache kv2) lidx i (int e) v = Inr v2"
        "getitem v1 lidx (int e) = getitem v2 lidx (int e)" by blast
    then show ?thesis
    proof cases
      case verr
      then show ?thesis using kok by (simp add: update_def)
    next
      case vok
      then show ?thesis using kok
        by (cases "getitem k2 lidx (int e)"; cases "getitem v2 lidx (int e)") (simp_all add: update_def)
    qed
  qed
qed

text \<open>
  C5. The output of an attention step depends on the cache only through its positions
  \<open>[0, occupancyBefore + newTokenCount)\<close>, the width of the step's mask: on two well-formed
  caches of the same shape that agree on these positions and differ in any way beyond
  them, the step returns the same result, be it an output or an error.
\<close>

theorem attention_reads_prefix_only:
  assumes "wf5 (k_cache kv1)" and "wf5 (k_cache kv2)"
    and "shape5 (k_cache kv1) = shape5 (k_cache kv2)"
    and "wf5 (v_cache kv1)" and "wf5 (v_cache kv2)"
    and "shape5 (v_cache kv1) = shape5 (v_cache kv2)"
    and "prefix5 (last_dim attention_mask) (k_cache kv1) = prefix5 (last_dim attention_mask) (k_cache kv2)"
    and "prefix5 (last_dim attention_mask) (v_cache kv1) = prefix5 (last_dim attention_mask) (v_cache kv2)"
  shows "fst (attention_forward self hidden_states attention_mask position_ids kv1) =
         fst (attention_forward self hidden_states attention_mask position_ids kv2)"
proof -
  let ?k = "key_states_of self hidden_states position_ids"
  let ?v = "value_states_of self hidden_states"
  let ?i = "int (last_dim attention_mask) - int (q_len_of hidden_states)"
  let ?u1 = "update kv1 ?k ?v (layer_idx self) [?i, int (last_dim attention_mask)]"
  let ?u2 = "update kv2 ?k ?v (layer_idx self) [?i, int (last_dim attention_mask)]"
  have "fst ?u1 = fst ?u2" using assms by (rule update_prefix_only)
  then show ?thesis
    by (cases ?u1; cases ?u2) (auto simp: attention_forward_def Let_def split: sum.splits)
qed

lemma write_positions_outside:
  assumes "p \<le> length dst"
  shows "take p (write_positions p n d dst src) = take p dst"
    and "drop (p + n) (write_positions p n d dst src) = drop (p + n) dst"
proof -
  have l: "length (take p dst) = p" using assms by simp
  show "take p (write_positions p n d dst src) = take p dst"
    using l by (simp add: write_positions_def)
  have "length (take p dst @ map (expand d) (expand n src)) = p + n" using l by simp
  then show "drop (p + n) (write_positions p n d dst src) = drop (p + n) dst"
    unfolding write_positions_def by (metis append.assoc append_eq_conv_conj)
qed

lemma write_heads_outside:
  assumes "heads_ok h c d dst" and "hv \<le> h" and "p \<le> c"
  shows "map (\<lambda>ps. (take p ps, drop (p + n) ps)) (write_heads hv p n d dst src) =
         map (\<lambda>ps. (take p ps, drop (p + n) ps)) dst"
proof (rule nth_equalityI)
  have l: "length dst = h" using assms(1) by (simp add: heads_ok_def)
  show "length (map (\<lambda>ps. (take p ps, drop (p + n) ps)) (write_heads hv p n d dst src)) =
        length (map (\<lambda>ps. (take p ps, drop (p + n) ps)) dst)"
    using l assms(2) by (simp add: length_write_heads)
  fix i assume "i < length (map (\<lambda>ps. (take p ps, drop (p + n) ps)) (write_heads hv p n d dst src))"
  then have i: "i < h" using l assms(2) by (simp add: length_write_heads)
  have "rows_ok c d (dst ! i)" using assms(1) i by (rule heads_ok_nth)
  then have "p \<le> length (dst ! i)" using assms(3) by (simp add: rows_ok_def)
  then have "take p (write_heads hv p n d dst src ! i) = take p (dst ! i) \<and>
        drop (p + n) (write_heads hv p n d dst src ! i) = drop (p + n) (dst ! i)"
    using l i assms(2) by (simp add: write_heads_nth write_positions_outside)
  then show "map (\<lambda>ps. (take p ps, drop (p + n) ps)) (write_heads hv p n d dst src) ! i =
             map (\<lambda>ps. (take p ps, drop (p + n) ps)) dst ! i"
    using l i assms(2) by (simp add: length_write_heads)
qed

lemma write_batch_outside:
  assumes "batch_ok b h c d dst" and "hv \<le> h" and "p \<le> c"
  shows "map (map (\<lambda>ps. (take p ps, drop (p + n) ps))) (write_batch b hv p n d dst src) =
         map (map (\<lambda>ps. (take p ps, drop (p + n) ps))) dst"
proof (rule nth_equalityI)
  have l: "length dst = b" using assms(1) by (simp add: batch_ok_def)
  have lw: "length (write_batch b hv p n d dst src) = b" using l by (simp add: write_batch_def)
  show "length (map (map (\<lambda>ps. (take p ps, drop (p + n) ps))) (write_batch b hv p n d dst src)) =
        length (map (map (\<lambda>ps. (take p ps, drop (p + n) ps))) dst)"
    using l lw by simp
  fix i assume "i < length (map (map (\<lambda>ps. (take p ps, drop (p + n) ps))) (write_batch b hv p n d dst src))"
  then have i: "i < b" using lw by simp
  have "heads_ok h c d (dst ! i)" using assms(1) i by (rule batch_ok_nth)
  then have "map (\<lambda>ps. (take p ps, drop (p + n) ps)) (write_heads hv p n d (dst ! i) (expand b src ! i)) =
         map (\<lambda>ps. (take p ps, drop (p + n) ps)) (dst ! i)"
    using assms(2,3) by (rule write_heads_outside)
  then show "map (map (\<lambda>ps. (take p ps, drop (p + n) ps))) (write_batch b hv p n d dst src) ! i =
             map (map (\<lambda>ps. (take p ps, drop (p + n) ps))) dst ! i"
    using i l lw by (simp add: write_batch_nth)
qed

lemma setitem_outside:
  assumes wf: "wf5 t" and sh: "shape5 t = (nl, b, h, c, d)" and le: "p + n \<le> c"
    and set: "setitem t lidx (int p) (int (p + n)) src = Inr t'"
  shows "outside5 p n t' = outside5 p n t"
proof (cases t lidx "int p" "int (p + n)" src rule: setitem_cases)
  case index
  then show ?thesis using set by simp
next
  case shape
  then show ?thesis using set by simp
next
  case (ok nl' b' h' c' d' l hv)
  then have eqs: "nl' = nl" "b' = b" "h' = h" "c' = c" "d' = d" using sh by simp_all
  have sb: "slice_bound c (int p) = p" "slice_bound c (int (p + n)) - slice_bound c (int p) = n"
    using le by (simp_all add: slice_bound_def)
  let ?F = "map (map (\<lambda>ps. (take p ps, drop (p + n) ps)))"
  let ?new = "write_batch b hv p n d (data5 t ! l) (data4 src)"
  have t': "t' = t\<lparr>data5 := (data5 t)[l := ?new]\<rparr>"
    using ok(4) set sb unfolding eqs by (simp del: of_nat_add)
  have ln: "l < nl" using ok(2) eqs by (auto dest: index_axis_less)
  have ll: "l < length (data5 t)" using wf sh ln by (simp add: wf5_def)
  have "?F ?new = ?F (data5 t ! l)"
  proof (rule write_batch_outside)
    show "batch_ok b h c d (data5 t ! l)" using wf5_layer [OF wf sh ln] .
    show "hv \<le> h" using ok(3) eqs by simp
    show "p \<le> c" using le by simp
  qed
  then have "map ?F ((data5 t)[l := ?new]) = map ?F (data5 t)"
    using ll by (simp add: map_update list_update_same_conv)
  then show ?thesis by (simp add: outside5_def t')
qed

lemma update_frame:
  assumes wf: "wf_cache (nl, b, h, c, d) kv" and le: "p + n \<le> c"
  shows "wf_cache (nl, b, h, c, d) (snd (update kv k v lidx [int p, int (p + n)])) \<and>
         frame_kept p n kv (snd (update kv k v lidx [int p, int (p + n)]))"
proof -
  have k: "wf5 (k_cache kv)" "shape5 (k_cache kv) = (nl, b, h, c, d)"
    and v: "wf5 (v_cache kv)" "shape5 (v_cache kv) = (nl, b, h, c, d)"
    using wf by (simp_all add: wf_cache_def)
  have same: "wf_cache (nl, b, h, c, d) kv \<and> frame_kept p n kv kv"
    using wf by (simp add: frame_kept_def)
  show ?thesis
  proof (cases "setitem (k_cache kv) lidx (int p) (int (p + n)) k")
    case (Inl e)
    then show ?thesis using same by (simp add: update_def)
  next
    case (Inr kc)
    have kc: "wf5 kc" "shape5 kc = (nl, b, h, c, d)" "outside5 p n kc = outside5 p n (k_cache kv)"
      using setitem_wf [OF k(1) Inr] k(2) setitem_outside [OF k le Inr] by simp_all
    have one: "wf_cache (nl, b, h, c, d) (kv\<lparr>k_cache := kc\<rparr>) \<and> frame_kept p n kv (kv\<lparr>k_cache := kc\<rparr>)"
      using kc v by (simp add: wf_cache_def frame_kept_def)
    show ?thesis
    proof (cases "setitem (v_cache kv) lidx (int p) (int (p + n)) v")
      case (Inl e)
      then show ?thesis using Inr one by (simp add: update_def)
    next
      case vc: (Inr vc)
      have vcp: "wf5 vc" "shape5 vc = (nl, b, h, c, d)" "outside5 p n vc = outside5 p n (v_cache kv)"
        using setitem_wf [OF v(1) vc] v(2) setitem_outside [OF v le vc] by simp_all
      have two: "wf_cache (nl, b, h, c, d) (kv\<lparr>k_cache := kc, v_cache := vc\<rparr>) \<and>
                 frame_kept p n kv (kv\<lparr>k_cache := kc, v_cache := vc\<rparr>)"
        using kc vcp by (simp add: wf_cache_def frame_kept_def)
      have "snd (update kv k v lidx [int p, int (p + n)]) = kv\<lparr>k_cache := kc, v_cache := vc\<rparr>"
        using Inr vc by (simp add: update_def Let_def split: sum.splits)
      then show ?thesis using two by simp
    qed
  qed
qed

lemma attention_forward_frame:
  assumes "wf_cache (nl, b, h, c, d) kv" and "p + n \<le> c"
    and "q_len_of hidden_states = n" and "last_dim attention_mask = p + n"
  shows "wf_cache (nl, b, h, c, d) (snd (attention_forward self hidden_states attention_mask position_ids kv)) \<and>
         frame_kept p n kv (snd (attention_forward self hidden_states attention_mask position_ids kv))"
proof -
  let ?u = "update kv (key_states_of self hidden_states position_ids)
              (value_states_of self hidden_states) (layer_idx self) [int p, int (p + n)]"
  have "snd (attention_forward self hidden_states attention_mask position_ids kv) = snd ?u"
    using assms(3,4) by (cases ?u) (auto simp: attention_forward_def Let_def split: sum.splits)
  then show ?thesis using update_frame [OF assms(1,2)] by simp
qed

lemma frame_kept_trans:
  "frame_kept p n kv kv1 \<Longrightarrow> frame_kept p n kv1 kv2 \<Longrightarrow> frame_kept p n kv kv2"
  by (simp add: frame_kept_def)

lemma decoder_layers_frame:
  assumes "wf_cache (nl, b, h, c, d) kv" and "p + n \<le> c"
    and "q_len_of hidden_states = n" and "last_dim attention_mask = p + n"
    and "\<forall>layer \<in> set ls. \<forall>x y. q_len_of (mlp layer x y) = q_len_of x"
  shows "wf_cache (nl, b, h, c, d) (snd (decoder_layers ls hidden_states attention_mask position_ids kv)) \<and>
         frame_kept p n kv (snd (decoder_layers ls hidden_states attention_mask position_ids kv))"
  using assms(1,3,5)
proof (induction ls arbitrary: hidden_states kv)
  case Nil
  then show ?case by (simp add: frame_kept_def)
next
  case (Cons layer rest)
  let ?a = "attention_forward (self_attn layer) hidden_states attention_mask position_ids kv"
  note af = attention_forward_frame [OF Cons.prems(1) assms(2) Cons.prems(2) assms(4),
      of "self_attn layer" position_ids]
  have a: "wf_cache (nl, b, h, c, d) (snd ?a)" "frame_kept p n kv (snd ?a)"
    using af by simp_all
  show ?case
  proof (cases "fst ?a")
    case (Inl e)
    then have "snd (decoder_layers (layer # rest) hidden_states attention_mask position_ids kv) = snd ?a"
      by (cases ?a) simp
    then show ?thesis using a by simp
  next
    case (Inr out)
    let ?h = "mlp layer hidden_states out"
    have q: "q_len_of ?h = n" using Cons.prems(2,3) by simp
    have r: "\<forall>layer \<in> set rest. \<forall>x y. q_len_of (mlp layer x y) = q_len_of x"
      using Cons.prems(3) by simp
    have eq: "decoder_layers (layer # rest) hidden_states attention_mask position_ids kv =
          decoder_layers rest ?h attention_mask position_ids (snd ?a)"
      using Inr by (cases ?a) simp
    from Cons.IH [OF a(1) q r] show ?thesis
      unfolding eq using a(2) by (auto intro: frame_kept_trans)
  qed
qed

lemma stateful_forward_frame:
  assumes "wf_cache (nl, b, h, c, d) kv" and "p + n \<le> c"
    and "length input_ids = n" and "last_dim causal_mask_in = p + n"
    and "q_len_of (embed_tokens m input_ids) = n"
    and "\<forall>layer \<in> set (layers m). \<forall>x y. q_len_of (mlp layer x y) = q_len_of x"
  shows "wf_cache (nl, b, h, c, d) (snd (stateful_forward m kv input_ids causal_mask_in)) \<and>
         past_seen_tokens (snd (stateful_forward m kv input_ids causal_mask_in)) = int p \<and>
         outside5 p n (k_cache (snd (stateful_forward m kv input_ids causal_mask_in))) = outside5 p n (k_cache kv) \<and>
         outside5 p n (v_cache (snd (stateful_forward m kv input_ids causal_mask_in))) = outside5 p n (v_cache kv)"
proof -
  let ?kv = "kv\<lparr>past_seen_tokens := int (last_dim causal_mask_in) - int (length input_ids)\<rparr>"
  let ?pos = "map (\<lambda>i. get_seq_length ?kv + int i) [0 ..< q_len_of (embed_tokens m input_ids)]"
  let ?d = "decoder_layers (layers m) (embed_tokens m input_ids) causal_mask_in ?pos ?kv"
  have wf: "wf_cache (nl, b, h, c, d) ?kv" using assms(1) by (simp add: wf_cache_def)
  have snd_eq: "snd (stateful_forward m kv input_ids causal_mask_in) = snd ?d"
    by (cases ?d) (auto simp: stateful_forward_def causal_lm_call_def Let_def split: sum.splits)
  from decoder_layers_frame [OF wf assms(2,5,4,6), of ?pos]
  have "wf_cache (nl, b, h, c, d) (snd ?d)" "frame_kept p n ?kv (snd ?d)" by simp_all
  moreover have "past_seen_tokens ?kv = int p" using assms(3,4) by simp
  ultimately show ?thesis unfolding snd_eq by (simp add: frame_kept_def)
qed

lemma attention_forward_exact:
  assumes "wf_cache (nl, b, h, c, d) kv" and "index_axis nl (layer_idx self) = Some l"
    and "q_len_of hidden_states = n" and "last_dim attention_mask = p + n" and "p + n \<le> c"
    and "shape4 (key_states_of self hidden_states position_ids) = (b, h, n, d)"
    and "wf4 (key_states_of self hidden_states position_ids)"
    and "shape4 (value_states_of self hidden_states) = (b, h, n, d)"
    and "wf4 (value_states_of self hidden_states)"
  shows "\<exists>kp vp kv'. attention_forward self hidden_states attention_mask position_ids kv =
         ((case scaled_dot_product_attention self (query_states_of self hidden_states position_ids)
                 (repeat_kv self kp (num_key_value_groups self))
                 (repeat_kv self vp (num_key_value_groups self)) attention_mask of
             Inl e \<Rightarrow> Inl e | Inr attn_output \<Rightarrow> Inr (o_proj self attn_output)), kv') \<and>
       shape4 kp = (b, h, p + n, d) \<and> shape4 vp = (b, h, p + n, d) \<and>
           past_seen_tokens kv' = past_seen_tokens kv \<and>
           (\<forall>bi < b. \<forall>hi < h.
              data5 (k_cache kv') ! l ! bi ! hi =
                take p (data5 (k_cache kv) ! l ! bi ! hi) @
                data4 (key_states_of self hidden_states position_ids) ! bi ! hi @
                drop (p + n) (data5 (k_cache kv) ! l ! bi ! hi) \<and>
              data5 (v_cache kv') ! l ! bi ! hi =
                take p (data5 (v_cache kv) ! l ! bi ! hi) @
                data4 (value_states_of self hidden_states) ! bi ! hi @
                drop (p + n) (data5 (v_cache kv) ! l ! bi ! hi)) \<and>
           (\<forall>l'. l' \<noteq> l \<longrightarrow> data5 (k_cache kv') ! l' = data5 (k_cache kv) ! l' \<and>
                             data5 (v_cache kv') ! l' = data5 (v_cache kv) ! l')"
proof -
  let ?k = "key_states_of self hidden_states position_ids"
  let ?v = "value_states_of self hidden_states"
  have k: "wf5 (k_cache kv)" "shape5 (k_cache kv) = (nl, b, h, c, d)"
    and v: "wf5 (v_cache kv)" "shape5 (v_cache kv) = (nl, b, h, c, d)"
    using assms(1) by (simp_all add: wf_cache_def)
  have ks: "shape4 ?k = (b, h, nat (int (p + n) - int p), d)"
    and vs: "shape4 ?v = (b, h, nat (int (p + n) - int p), d)"
    using assms(6,8) by simp_all
  have rng: "0 \<le> int p" "int p \<le> int (p + n)" "int (p + n) \<le> int c" using assms(5) by simp_all
  from update_exact [OF k v assms(2) ks assms(7) vs assms(9) rng]
  obtain kp vp kv' where u: "update kv ?k ?v (layer_idx self) [int p, int (p + n)] = (Inr (kp, vp), kv')"
    and shp: "shape4 kp = (b, h, nat (int (p + n)), d)" "shape4 vp = (b, h, nat (int (p + n)), d)"
    and rest: "past_seen_tokens kv' = past_seen_tokens kv"
      "\<forall>bi < b. \<forall>hi < h.
              data5 (k_cache kv') ! l ! bi ! hi =
                take (nat (int p)) (data5 (k_cache kv) ! l ! bi ! hi) @ data4 ?k ! bi ! hi @
                drop (nat (int (p + n))) (data5 (k_cache kv) ! l ! bi ! hi) \<and>
              data5 (v_cache kv') ! l ! bi ! hi =
                take (nat (int p)) (data5 (v_cache kv) ! l ! bi ! hi) @ data4 ?v ! bi ! hi @
                drop (nat (int (p + n))) (data5 (v_cache kv) ! l ! bi ! hi)"
      "\<forall>l'. l' \<noteq> l \<longrightarrow> data5 (k_cache kv') ! l' = data5 (k_cache kv) ! l' \<and>
                             data5 (v_cache kv') ! l' = data5 (v_cache kv) ! l'"
    by blast
  have a: "attention_forward self hidden_states attention_mask position_ids kv =
         ((case scaled_dot_product_attention self (query_states_of self hidden_states position_ids)
                 (repeat_kv self kp (num_key_value_groups self))
                 (repeat_kv self vp (num_key_value_groups self)) attention_mask of
             Inl e \<Rightarrow> Inl e | Inr attn_output \<Rightarrow> Inr (o_proj self attn_output)), kv')"
    using u assms(3,4) by (simp add: attention_forward_def Let_def split: sum.splits)
  have shp': "shape4 kp = (b, h, p + n, d)" "shape4 vp = (b, h, p + n, d)"
    using shp by (simp_all del: of_nat_add)
  have rest': "\<forall>bi < b. \<forall>hi < h.
              data5 (k_cache kv') ! l ! bi ! hi =
                take p (data5 (k_cache kv) ! l ! bi ! hi) @ data4 ?k ! bi ! hi @
                drop (p + n) (data5 (k_cache kv) ! l ! bi ! hi) \<and>
              data5 (v_cache kv') ! l ! bi ! hi =
                take p (data5 (v_cache kv) ! l ! bi ! hi) @ data4 ?v ! bi ! hi @
                drop (p + n) (data5 (v_cache kv) ! l ! bi ! hi)"
    using rest(2) by (simp del: of_nat_add)
  show ?thesis using a shp' rest(1,3) rest'
    by (intro exI [of _ kp] exI [of _ vp] exI [of _ kv']) simp
qed

lemma generator_counts:
  "generator_at predict st prompt i = Inr g \<Longrightarrow> num_past_tokens g = length prompt + i"
proof (induction i arbitrary: g)
  case 0
  then show ?case
    by (auto simp: generator_start_def split: prod.splits sum.splits)
next
  case (Suc i)
  then obtain g0 where g0: "generator_at predict st prompt i = Inr g0"
    and r: "generator_resume predict g0 = Inr g"
    by (auto split: sum.splits)
  from r have "num_past_tokens g = num_past_tokens g0 + 1"
    by (auto simp: generator_resume_def split: prod.splits sum.splits)
  then show ?case using Suc.IH [OF g0] by simp
qed

text \<open>
  C1, as the code has it. For a step with \<open>p\<close> past tokens and \<open>n\<close> new ones, with a mask
  of width \<open>p + n\<close> within capacity: the attention step of a layer writes that layer's key
  and value chunks at positions \<open>[p, p + n)\<close> and leaves every other position and every
  other layer as it was; the whole forward pass leaves all positions outside \<open>[p, p + n)\<close>
  of every layer of both buffers unchanged, and after it the counter of the cache,
  \<open>past_seen_tokens\<close>, is \<open>p\<close>, the number of tokens seen before the step. The driver
  builds a mask of width \<open>num_past_tokens\<close> plus the number of new tokens, and its own
  count \<open>num_past_tokens\<close> is, at the \<open>i\<close>-th token it yields, the length of the prompt
  plus \<open>i\<close>: the sum of the numbers of new tokens of the steps made so far.
\<close>

theorem decoding_step_range_and_counters:
  "(wf_cache (nl, b, h, c, d) kv \<and> index_axis nl (layer_idx self) = Some l \<and>
    q_len_of hidden_states = n \<and> last_dim attention_mask = p + n \<and> p + n \<le> c \<and>
    shape4 (key_states_of self hidden_states position_ids) = (b, h, n, d) \<and>
    wf4 (key_states_of self hidden_states position_ids) \<and>
    shape4 (value_states_of self hidden_states) = (b, h, n, d) \<and>
    wf4 (value_states_of self hidden_states) \<longrightarrow>
    (\<exists>kp vp kv'. attention_forward self hidden_states attention_mask position_ids kv =
         ((case scaled_dot_product_attention self (query_states_of self hidden_states position_ids)
                 (repeat_kv self kp (num_key_value_groups self))
                 (repeat_kv self vp (num_key_value_groups self)) attention_mask of
             Inl e \<Rightarrow> Inl e | Inr attn_output \<Rightarrow> Inr (o_proj self attn_output)), kv') \<and>
       shape4 kp = (b, h, p + n, d) \<and> shape4 vp = (b, h, p + n, d) \<and>
       past_seen_tokens kv' = past_seen_tokens kv \<and>
       (\<forall>bi < b. \<forall>hi < h.
          data5 (k_cache kv') ! l ! bi ! hi =
            take p (data5 (k_cache kv) ! l ! bi ! hi) @
            data4 (key_states_of self hidden_states position_ids) ! bi ! hi @
            drop (p + n) (data5 (k_cache kv) ! l ! bi ! hi) \<and>
          data5 (v_cache kv') ! l ! bi ! hi =
            take p (data5 (v_cache kv) ! l ! bi ! hi) @
            data4 (value_states_of self hidden_states) ! bi ! hi @
            drop (p + n) (data5 (v_cache kv) ! l ! bi ! hi)) \<and>
       (\<forall>l'. l' \<noteq> l \<longrightarrow> data5 (k_cache kv') ! l' = data5 (k_cache kv) ! l' \<and>
                         data5 (v_cache kv') ! l' = data5 (v_cache kv) ! l'))) \<and>
   (wf_cache (nl, b, h, c, d) kv \<and> p + n \<le> c \<and> length input_ids = n \<and>
    last_dim attention_mask = p + n \<and> q_len_of (embed_tokens m input_ids) = n \<and>
    (\<forall>layer \<in> set (layers m). \<forall>x y. q_len_of (mlp layer x y) = q_len_of x) \<longrightarrow>
    wf_cache (nl, b, h, c, d) (snd (stateful_forward m kv input_ids attention_mask)) \<and>
    past_seen_tokens (snd (stateful_forward m kv input_ids attention_mask)) = int p \<and>
    outside5 p n (k_cache (snd (stateful_forward m kv input_ids attention_mask))) =
      outside5 p n (k_cache kv) \<and>
    outside5 p n (v_cache (snd (stateful_forward m kv input_ids attention_mask))) =
      outside5 p n (v_cache kv)) \<and>
   last_dim (causal_mask input_ids p) = p + length input_ids \<and>
   (\<forall>i g. generator_at predict st prompt i = Inr g \<longrightarrow> num_past_tokens g = length prompt + i)"
proof (intro conjI impI allI)
  assume "wf_cache (nl, b, h, c, d) kv \<and> index_axis nl (layer_idx self) = Some l \<and>
    q_len_of hidden_states = n \<and> last_dim attention_mask = p + n \<and> p + n \<le> c \<and>
    shape4 (key_states_of self hidden_states position_ids) = (b, h, n, d) \<and>
    wf4 (key_states_of self hidden_states position_ids) \<and>
    shape4 (value_states_of self hidden_states) = (b, h, n, d) \<and>
    wf4 (value_states_of self hidden_states)"
  then show "\<exists>kp vp kv'. attention_forward self hidden_states attention_mask position_ids kv =
         ((case scaled_dot_product_attention self (query_states_of self hidden_states position_ids)
                 (repeat_kv self kp (num_key_value_groups self))
                 (repeat_kv self vp (num_key_value_groups self)) attention_mask of
             Inl e \<Rightarrow> Inl e | Inr attn_output \<Rightarrow> Inr (o_proj self attn_output)), kv') \<and>
       shape4 kp = (b, h, p + n, d) \<and> shape4 vp = (b, h, p + n, d) \<and>
       past_seen_tokens kv' = past_seen_tokens kv \<and>
       (\<forall>bi < b. \<forall>hi < h.
          data5 (k_cache kv') ! l ! bi ! hi =
            take p (data5 (k_cache kv) ! l ! bi ! hi) @
            data4 (key_states_of self hidden_states position_ids) ! bi ! hi @
            drop (p + n) (data5 (k_cache kv) ! l ! bi ! hi) \<and>
          data5 (v_cache kv') ! l ! bi ! hi =
            take p (data5 (v_cache kv) ! l ! bi ! hi) @
            data4 (value_states_of self hidden_states) ! bi ! hi @
            drop (p + n) (data5 (v_cache kv) ! l ! bi ! hi)) \<and>
       (\<forall>l'. l' \<noteq> l \<longrightarrow> data5 (k_cache kv') ! l' = data5 (k_cache kv) ! l' \<and>
                         data5 (v_cache kv') ! l' = data5 (v_cache kv) ! l')"
    by (intro attention_forward_exact [where nl = nl and c = c]) simp_all
next
  assume a: "wf_cache (nl, b, h, c, d) kv \<and> p + n \<le> c \<and> length input_ids = n \<and>
    last_dim attention_mask = p + n \<and> q_len_of (embed_tokens m input_ids) = n \<and>
    (\<forall>layer \<in> set (layers m). \<forall>x y. q_len_of (mlp layer x y) = q_len_of x)"
  then have "wf_cache (nl, b, h, c, d) (snd (stateful_forward m kv input_ids attention_mask)) \<and>
         past_seen_tokens (snd (stateful_forward m kv input_ids attention_mask)) = int p \<and>
         outside5 p n (k_cache (snd (stateful_forward m kv input_ids attention_mask))) = outside5 p n (k_cache kv) \<and>
         outside5 p n (v_cache (snd (stateful_forward m kv input_ids attention_mask))) = outside5 p n (v_cache kv)"
    by (intro stateful_forward_frame [where nl = nl and b = b and h = h and c = c and d = d]) simp_all
  then show "wf_cache (nl, b, h, c, d) (snd (stateful_forward m kv input_ids attention_mask))"
    and "past_seen_tokens (snd (stateful_forward m kv input_ids attention_mask)) = int p"
    and "outside5 p n (k_cache (snd (stateful_forward m kv input_ids attention_mask))) = outside5 p n (k_cache kv)"
    and "outside5 p n (v_cache (snd (stateful_forward m kv input_ids attention_mask))) = outside5 p n (v_cache kv)"
    by simp_all
next
  show "last_dim (causal_mask input_ids p) = p + length input_ids"
    by (simp add: last_dim_def causal_mask_shape)
next
  fix i g assume "generator_at predict st prompt i = Inr g"
  then show "num_past_tokens g = length prompt + i" by (rule generator_counts)
qed

text \<open>
  C1 as stated fails for the counter of the cache: with one past token and two new ones
  the write goes to positions \<open>[1, 3)\<close>, and afterwards \<open>past_seen_tokens\<close> is \<open>1\<close>, not
  \<open>3\<close>.
\<close>

theorem stateful_forward_counter_counterexample:
  "snd (stateful_forward demo_model demo_cache [7, 8] (causal_mask [7, 8] 1)) =
     \<lparr>past_seen_tokens = 1,
      k_cache = \<lparr>shape5 = (1, 1, 1, 3, 1), data5 = [[[[[1], [7], [8]]]]]\<rparr>,
      v_cache = \<lparr>shape5 = (1, 1, 1, 3, 1), data5 = [[[[[4], [107], [108]]]]]\<rparr>\<rparr> \<and>
   (1::int) \<noteq> 1 + 2"
  by code_simp

lemmas demo_defs = demo_cache_def stale_cache_def demo_attention_def demo_model_def

theorem attention_reads_prefix_only_witness:
  "wf5 (k_cache demo_cache) \<and> wf5 (k_cache stale_cache) \<and>
   wf5 (v_cache demo_cache) \<and> wf5 (v_cache stale_cache) \<and>
   last_dim (causal_mask [8] 1) = 2 \<and>
   prefix5 2 (k_cache demo_cache) = prefix5 2 (k_cache stale_cache) \<and>
   prefix5 2 (v_cache demo_cache) = prefix5 2 (v_cache stale_cache) \<and>
   k_cache demo_cache \<noteq> k_cache stale_cache \<and>
   fst (attention_forward demo_attention [[8]] (causal_mask [8] 1) [1] demo_cache) =
   fst (attention_forward demo_attention [[8]] (causal_mask [8] 1) [1] stale_cache)"
proof -
  have w: "wf5 (k_cache demo_cache)" "wf5 (k_cache stale_cache)"
    "wf5 (v_cache demo_cache)" "wf5 (v_cache stale_cache)"
    by (simp_all add: demo_defs wf_defs)
  have s: "shape5 (k_cache demo_cache) = shape5 (k_cache stale_cache)"
    "shape5 (v_cache demo_cache) = shape5 (v_cache stale_cache)"
    by (simp_all add: demo_defs)
  have l: "last_dim (causal_mask [8] 1) = 2" by (simp add: last_dim_def causal_mask_shape)
  have p: "prefix5 2 (k_cache demo_cache) = prefix5 2 (k_cache stale_cache)"
    "prefix5 2 (v_cache demo_cache) = prefix5 2 (v_cache stale_cache)"
    by (simp_all add: prefix5_def demo_defs)
  have d: "k_cache demo_cache \<noteq> k_cache stale_cache" by (simp add: demo_defs)
  have "fst (attention_forward demo_attention [[8]] (causal_mask [8] 1) [1] demo_cache) =
        fst (attention_forward demo_attention [[8]] (causal_mask [8] 1) [1] stale_cache)"
    using attention_reads_prefix_only [OF w(1,2) s(1) w(3,4) s(2), of "causal_mask [8] 1" demo_attention "[[8]]" "[1]"] p
    unfolding l by simp
  then show ?thesis using w l p d by simp
qed

theorem decoding_step_range_and_counters_witness:
  "wf_cache (1, 1, 1, 3, 1) demo_cache \<and> (1::nat) + 2 \<le> 3 \<and>
   last_dim (causal_mask [7, 8] 1) = 1 + 2 \<and>
   past_seen_tokens (snd (stateful_forward demo_model demo_cache [7, 8] (causal_mask [7, 8] 1))) = 1 \<and>
   outside5 1 2 (k_cache (snd (stateful_forward demo_model demo_cache [7, 8] (causal_mask [7, 8] 1)))) =
     outside5 1 2 (k_cache demo_cache) \<and>
   (\<exists>out kv'. attention_forward demo_attention [[7, 8]] (causal_mask [7, 8] 1) [1, 2] demo_cache =
       (Inr out, kv') \<and>
       data5 (k_cache kv') ! 0 ! 0 ! 0 = [[1], [7], [8]] \<and>
       data5 (v_cache kv') ! 0 ! 0 ! 0 = [[4], [107], [108]]) \<and>
   (\<exists>g. generator_at (\<lambda>ids m st. ([[[Num (0::int), Num 1, Num 0]]], st)) () [5, 8, 2] 2 = Inr g \<and>
        num_past_tokens g = 5)"
proof -
  note t = decoding_step_range_and_counters
    [where nl = 1 and b = 1 and h = 1 and c = 3 and d = 1 and kv = demo_cache
       and self = demo_attention and l = 0 and hidden_states = "[[7, 8]]" and n = 2
       and attention_mask = "causal_mask [7, 8] 1" and p = 1 and position_ids = "[1, 2]"
       and m = demo_model and input_ids = "[7, 8]"
       and predict = "\<lambda>ids m st. ([[[Num (0::int), Num 1, Num 0]]], st)" and st = "()" and prompt = "[5, 8, 2]"]
  have wf: "wf_cache (1, 1, 1, 3, 1) demo_cache" by (simp add: wf_cache_def demo_defs wf_defs)
  have ld: "last_dim (causal_mask [7, 8] 1) = 1 + 2" by (simp add: last_dim_def causal_mask_shape)
  have hA: "wf_cache (1, 1, 1, 3, 1) demo_cache \<and> index_axis 1 (layer_idx demo_attention) = Some 0 \<and>
    q_len_of [[7, 8::int]] = 2 \<and> last_dim (causal_mask [7, 8] 1) = 1 + 2 \<and> (1::nat) + 2 \<le> 3 \<and>
    shape4 (key_states_of demo_attention [[7, 8]] [1, 2]) = (1, 1, 2, 1) \<and>
    wf4 (key_states_of demo_attention [[7, 8]] [1, 2]) \<and>
    shape4 (value_states_of demo_attention [[7, 8]]) = (1, 1, 2, 1) \<and>
    wf4 (value_states_of demo_attention [[7, 8]])"
    using wf ld by (simp add: demo_attention_def index_axis_def q_len_of_def wf_defs)
  have hB: "wf_cache (1, 1, 1, 3, 1) demo_cache \<and> (1::nat) + 2 \<le> 3 \<and> length [7, 8::int] = 2 \<and>
    last_dim (causal_mask [7, 8] 1) = 1 + 2 \<and> q_len_of (embed_tokens demo_model [7, 8]) = 2 \<and>
    (\<forall>layer \<in> set (layers demo_model). \<forall>x y. q_len_of (mlp layer x y) = q_len_of x)"
    using wf ld by (simp add: demo_model_def q_len_of_def)
  from t hA obtain kp vp kv' where
    a: "attention_forward demo_attention [[7, 8]] (causal_mask [7, 8] 1) [1, 2] demo_cache =
         ((case scaled_dot_product_attention demo_attention
                  (query_states_of demo_attention [[7, 8]] [1, 2])
                  (repeat_kv demo_attention kp (num_key_value_groups demo_attention))
                  (repeat_kv demo_attention vp (num_key_value_groups demo_attention))
                  (causal_mask [7, 8] 1) of
             Inl e \<Rightarrow> Inl e | Inr attn_output \<Rightarrow> Inr (o_proj demo_attention attn_output)), kv')"
    and sh: "shape4 kp = (1, 1, 1 + 2, 1)"
    and w: "\<forall>bi < 1. \<forall>hi < 1.
          data5 (k_cache kv') ! 0 ! bi ! hi =
            take 1 (data5 (k_cache demo_cache) ! 0 ! bi ! hi) @
            data4 (key_states_of demo_attention [[7, 8]] [1, 2]) ! bi ! hi @
            drop (1 + 2) (data5 (k_cache demo_cache) ! 0 ! bi ! hi) \<and>
          data5 (v_cache kv') ! 0 ! bi ! hi =
            take 1 (data5 (v_cache demo_cache) ! 0 ! bi ! hi) @
            data4 (value_states_of demo_attention [[7, 8]]) ! bi ! hi @
            drop (1 + 2) (data5 (v_cache demo_cache) ! 0 ! bi ! hi)"
    by blast
  from w have "data5 (k_cache kv') ! 0 ! 0 ! 0 = [[1], [7], [8]]"
    "data5 (v_cache kv') ! 0 ! 0 ! 0 = [[4], [107], [108]]"
    by (simp_all add: demo_defs)
  moreover have "\<exists>out. attention_forward demo_attention [[7, 8]] (causal_mask [7, 8] 1) [1, 2] demo_cache =
       (Inr out, kv')"
    unfolding a using sh ld by (simp add: demo_attention_def)
  ultimately have ex: "\<exists>out kv'. attention_forward demo_attention [[7, 8]] (causal_mask [7, 8] 1) [1, 2] demo_cache =
       (Inr out, kv') \<and>
       data5 (k_cache kv') ! 0 ! 0 ! 0 = [[1], [7], [8]] \<and>
       data5 (v_cache kv') ! 0 ! 0 ! 0 = [[4], [107], [108]]" by blast
  from t hB have f: "past_seen_tokens (snd (stateful_forward demo_model demo_cache [7, 8] (causal_mask [7, 8] 1))) = int 1"
    "outside5 1 2 (k_cache (snd (stateful_forward demo_model demo_cache [7, 8] (causal_mask [7, 8] 1)))) =
     outside5 1 2 (k_cache demo_cache)"
    by blast+
  from t have "\<forall>g. generator_at (\<lambda>ids m st. ([[[Num (0::int), Num 1, Num 0]]], st)) () [5, 8, 2] 2 = Inr g \<longrightarrow>
        num_past_tokens g = length [5, 8, 2::int] + 2" by blast
  moreover have "\<exists>g. generator_at (\<lambda>ids m st. ([[[Num (0::int), Num 1, Num 0]]], st)) () [5, 8, 2] 2 = Inr g"
    by (simp add: numeral_2_eq_2 generator_start_def generator_resume_def inference_def
          sample_def np_argmax_def)
  ultimately have g: "\<exists>g. generator_at (\<lambda>ids m st. ([[[Num (0::int), Num 1, Num 0]]], st)) () [5, 8, 2] 2 = Inr g \<and>
        num_past_tokens g = 5" by auto
  show ?thesis using wf ld ex f g by simp
qed

end
